theory Spec2Isabelle
  imports Main
begin

section \<open>Text primitives\<close>

text \<open>
  Python's \<^verbatim>\<open>str\<close> is modelled as \<^typ>\<open>string\<close>, a list of 8-bit characters, and the
  model is that of ASCII text. On the characters below 128 the classes \<open>is_space\<close>,
  \<open>is_word_char\<close> and \<open>is_digit\<close> are Python's \<^verbatim>\<open>str.isspace\<close> (which \<^verbatim>\<open>strip\<close> and the
  regex class \<^verbatim>\<open>\s\<close> share), \<^verbatim>\<open>\w\<close> and \<^verbatim>\<open>\d\<close>, and \<open>upper\<close> is \<^verbatim>\<open>str.upper\<close>, which
  there maps \<^verbatim>\<open>a..z\<close> to \<^verbatim>\<open>A..Z\<close> and keeps the length. Beyond ASCII Python classifies
  by the Unicode database (a no-break space is whitespace, an accented letter is a word
  character, \<^verbatim>\<open>upper\<close> can lengthen the text) and the model does not follow it: a
  statement about all texts whose truth depends on these classes is made of the texts
  that satisfy \<open>is_ascii\<close>.
\<close>

definition is_ascii :: "string \<Rightarrow> bool" where
  "is_ascii s = list_all (\<lambda>c. (of_char c :: nat) < 128) s"

definition newline :: char where
  "newline = CHR 0x0A"

definition quote :: char where
  "quote = CHR 0x27"

definition is_space :: "char \<Rightarrow> bool" where
  "is_space c = (let n = (of_char c :: nat) in (9 \<le> n \<and> n \<le> 13) \<or> (28 \<le> n \<and> n \<le> 32))"

definition is_digit :: "char \<Rightarrow> bool" where
  "is_digit c = (let n = (of_char c :: nat) in 48 \<le> n \<and> n \<le> 57)"

definition is_word_char :: "char \<Rightarrow> bool" where
  "is_word_char c = (let n = (of_char c :: nat) in
     (48 \<le> n \<and> n \<le> 57) \<or> (65 \<le> n \<and> n \<le> 90) \<or> n = 95 \<or> (97 \<le> n \<and> n \<le> 122))"

definition upper_table :: "(char \<times> char) list" where
  "upper_table = zip ''abcdefghijklmnopqrstuvwxyz'' ''ABCDEFGHIJKLMNOPQRSTUVWXYZ''"

definition upper_char :: "char \<Rightarrow> char" where
  "upper_char c = (case map_of upper_table c of Some u \<Rightarrow> u | None \<Rightarrow> c)"

text \<open>\<^verbatim>\<open>s.upper()\<close>\<close>

definition upper :: "string \<Rightarrow> string" where
  "upper s = map upper_char s"

text \<open>\<^verbatim>\<open>s.lstrip()\<close>, \<^verbatim>\<open>s.rstrip()\<close>, \<^verbatim>\<open>s.strip()\<close>\<close>

definition lstrip :: "string \<Rightarrow> string" where
  "lstrip s = dropWhile is_space s"

definition rstrip :: "string \<Rightarrow> string" where
  "rstrip s = rev (dropWhile is_space (rev s))"

definition strip :: "string \<Rightarrow> string" where
  "strip s = rstrip (lstrip s)"

text \<open>\<^verbatim>\<open>s.startswith(p)\<close>\<close>

fun startswith :: "string \<Rightarrow> string \<Rightarrow> bool" where
  "startswith s [] = True"
| "startswith [] (p # ps) = False"
| "startswith (c # cs) (p # ps) = (c = p \<and> startswith cs ps)"

text \<open>\<^verbatim>\<open>sub in s\<close>\<close>

fun contains :: "string \<Rightarrow> string \<Rightarrow> bool" where
  "contains sub [] = (sub = [])"
| "contains sub (c # cs) = (startswith (c # cs) sub \<or> contains sub cs)"

text \<open>\<^verbatim>\<open>str(n)\<close> for an integer, as an f-string prints it.\<close>

definition digit_char :: "nat \<Rightarrow> char" where
  "digit_char d = ''0123456789'' ! d"

fun str_nat :: "nat \<Rightarrow> string" where
  "str_nat n = (if n < 10 then [digit_char n] else str_nat (n div 10) @ [digit_char (n mod 10)])"

declare str_nat.simps [simp del]

definition str_int :: "int \<Rightarrow> string" where
  "str_int i = (if i < 0 then CHR ''-'' # str_nat (nat (- i)) else str_nat (nat i))"

section \<open>The regular expressions of the safety check\<close>

text \<open>
  A position of the subject is the pair of a flag, whether the character before it is a
  word character (\<open>False\<close> at the start of the text), and the rest of the text from there.
  \<^verbatim>\<open>\b\<close> holds where exactly one side is a word character.
\<close>

definition word_boundary :: "bool \<Rightarrow> string \<Rightarrow> bool" where
  "word_boundary prev rest = (prev \<noteq> (case rest of [] \<Rightarrow> False | c # _ \<Rightarrow> is_word_char c))"

text \<open>The flag after the literal \<open>k\<close> has been consumed.\<close>

definition after_lit :: "bool \<Rightarrow> string \<Rightarrow> bool" where
  "after_lit prev k = (if k = [] then prev else is_word_char (last k))"

text \<open>The literal \<open>k\<close> followed by \<^verbatim>\<open>\b\<close>, at the position \<open>(prev, xs)\<close>.\<close>

definition lit_b :: "bool \<Rightarrow> string \<Rightarrow> string \<Rightarrow> bool" where
  "lit_b prev xs k = (startswith xs k \<and> word_boundary (after_lit prev k) (drop (length k) xs))"

text \<open>
  \<^verbatim>\<open>\b(k1|k2|...)\b\<close> at a position: the group is the first alternative, in the order
  written, that matches with a boundary after it (a backtracking matcher tries them in
  that order and nothing follows the group).
\<close>

definition pat_keywords :: "string list \<Rightarrow> bool \<Rightarrow> string \<Rightarrow> string option" where
  "pat_keywords alts prev xs =
     (if word_boundary prev xs then find (lit_b prev xs) alts else None)"

text \<open>
  \<^verbatim>\<open>.*\b(k1|k2|...)\b\<close> at a position, as a yes/no question: \<^verbatim>\<open>.\<close> matches any
  character but the newline, so the keyword has to start on the current line.
\<close>

fun dot_star_keywords :: "string list \<Rightarrow> bool \<Rightarrow> string \<Rightarrow> bool" where
  "dot_star_keywords alts prev [] = (pat_keywords alts prev [] \<noteq> None)"
| "dot_star_keywords alts prev (c # cs) =
     (pat_keywords alts prev (c # cs) \<noteq> None \<or>
      (c \<noteq> newline \<and> dot_star_keywords alts (is_word_char c) cs))"

text \<open>
  \<^verbatim>\<open>\b(UNION ALL|UNION)\b.*\b(SELECT|INSERT|UPDATE|DELETE)\b\<close> at a position: group 1 is the
  first alternative for which the whole rest of the pattern matches.
\<close>

definition pat_union :: "bool \<Rightarrow> string \<Rightarrow> string option" where
  "pat_union prev xs =
     (if word_boundary prev xs
      then find (\<lambda>k. lit_b prev xs k \<and>
                  dot_star_keywords [''SELECT'', ''INSERT'', ''UPDATE'', ''DELETE'']
                    (after_lit prev k) (drop (length k) xs))
             [''UNION ALL'', ''UNION'']
      else None)"

text \<open>
  \<^verbatim>\<open>re.search(pattern, s)\<close>: the leftmost position at which the pattern matches; the result
  is group 1 of that match, \<open>None\<close> when there is no match.
\<close>

fun re_search :: "(bool \<Rightarrow> string \<Rightarrow> string option) \<Rightarrow> bool \<Rightarrow> string \<Rightarrow> string option" where
  "re_search pat prev [] = pat prev []"
| "re_search pat prev (c # cs) =
     (case pat prev (c # cs) of
        Some g \<Rightarrow> Some g
      | None \<Rightarrow> re_search pat (is_word_char c) cs)"

section \<open>\<^verbatim>\<open>trendsql/app/sql_safety.py\<close>\<close>

definition dml_keywords :: "string list" where
  "dml_keywords = [''INSERT'', ''UPDATE'', ''DELETE'', ''DROP'', ''TRUNCATE'', ''ALTER'',
     ''CREATE'', ''REINDEX'', ''VACUUM'', ''GRANT'', ''REVOKE'']"

definition exec_keywords :: "string list" where
  "exec_keywords = [''EXEC'', ''EXECUTE'', ''EXECUTE IMMEDIATE'']"

definition dangerous_patterns :: "(bool \<Rightarrow> string \<Rightarrow> string option) list" where
  "dangerous_patterns = [pat_keywords dml_keywords, pat_keywords exec_keywords, pat_union]"

text \<open>
  The loop over \<^verbatim>\<open>dangerous_patterns\<close>: group 1 of the first pattern, in list order, that
  is found anywhere in the text.
\<close>

fun first_dangerous :: "(bool \<Rightarrow> string \<Rightarrow> string option) list \<Rightarrow> string \<Rightarrow> string option" where
  "first_dangerous [] s = None"
| "first_dangerous (p # ps) s =
     (case re_search p False s of
        Some g \<Rightarrow> Some g
      | None \<Rightarrow> first_dangerous ps s)"

text \<open>\<^verbatim>\<open>re.match(r'^(WITH|SELECT|EXPLAIN)\b', sql_upper)\<close>\<close>

definition allowed_start :: "string \<Rightarrow> bool" where
  "allowed_start s = (find (lit_b False s) [''WITH'', ''SELECT'', ''EXPLAIN''] \<noteq> None)"

text \<open>
  The verdict is the pair \<^verbatim>\<open>(is_safe, error_message)\<close>; Python's \<^verbatim>\<open>None\<close> is \<open>None\<close>.
  The function has no \<^verbatim>\<open>raise\<close>, and the second \<^verbatim>\<open>re.search\<close> of the loop repeats
  the first, so \<^verbatim>\<open>.group(1)\<close> is never taken of \<^verbatim>\<open>None\<close>.
\<close>

definition ensure_safe_select :: "string \<Rightarrow> bool \<times> string option" where
  "ensure_safe_select sql =
     (let sql_upper = upper (strip sql) in
      case first_dangerous dangerous_patterns sql_upper of
        Some g \<Rightarrow> (False, Some (''SQL contains forbidden keyword: '' @ g))
      | None \<Rightarrow>
          if \<not> allowed_start sql_upper
          then (False, Some ''SQL must start with SELECT, WITH, or EXPLAIN'')
          else if CHR '';'' \<in> set sql
          then (False, Some ''Multiple statements not allowed (semicolon detected)'')
          else if contains ''--'' sql \<or> contains ''/*'' sql
          then (False, Some ''Comments not allowed in SQL'')
          else (True, None))"

text \<open>
  \<^verbatim>\<open>re.sub(r'--.*$', '', sql, flags=re.MULTILINE)\<close>: a match starts at the leftmost
  \<^verbatim>\<open>--\<close>; \<^verbatim>\<open>.*\<close> runs to the end of the line, where \<^verbatim>\<open>$\<close> holds; the scan goes on
  behind the match.
\<close>

function remove_line_comments :: "string \<Rightarrow> string" where
  "remove_line_comments [] = []"
| "remove_line_comments (c # cs) =
     (if startswith (c # cs) ''--''
      then remove_line_comments (dropWhile (\<lambda>x. x \<noteq> newline) cs)
      else c # remove_line_comments cs)"
  by pat_completeness auto
termination
  by (relation "measure length") (auto simp: less_Suc_eq_le length_dropWhile_le)

text \<open>\<^verbatim>\<open>s.find(sub)\<close>: the lowest index at which \<open>sub\<close> starts, \<open>None\<close> for Python's \<open>-1\<close>.\<close>

fun find_str :: "string \<Rightarrow> string \<Rightarrow> nat option" where
  "find_str [] sub = (if sub = [] then Some 0 else None)"
| "find_str (c # cs) sub =
     (if startswith (c # cs) sub then Some 0
      else map_option Suc (find_str cs sub))"

text \<open>
  \<^verbatim>\<open>re.sub(r'/\*.*?\*/', '', sql, flags=re.DOTALL)\<close>: a match starts at a \<^verbatim>\<open>/*\<close> that has
  a \<^verbatim>\<open>*/\<close> somewhere behind it and, \<^verbatim>\<open>.*?\<close> being lazy, ends with the first such
  \<^verbatim>\<open>*/\<close>; a \<^verbatim>\<open>/*\<close> that is never closed stays.
\<close>

fun remove_block_comments :: "string \<Rightarrow> string" where
  "remove_block_comments [] = []"
| "remove_block_comments (c # cs) =
     (if startswith (c # cs) ''/*''
      then (case find_str (tl cs) ''*/'' of
              Some i \<Rightarrow> remove_block_comments (drop (i + 2) (tl cs))
            | None \<Rightarrow> c # remove_block_comments cs)
      else c # remove_block_comments cs)"

text \<open>\<^verbatim>\<open>re.sub(r'\s+', ' ', sql)\<close>: every maximal run of whitespace becomes one blank.\<close>

function collapse_whitespace :: "string \<Rightarrow> string" where
  "collapse_whitespace [] = []"
| "collapse_whitespace (c # cs) =
     (if is_space c
      then CHR '' '' # collapse_whitespace (dropWhile is_space cs)
      else c # collapse_whitespace cs)"
  by pat_completeness auto
termination
  by (relation "measure length") (auto simp: less_Suc_eq_le length_dropWhile_le)

definition sanitize_sql :: "string \<Rightarrow> string" where
  "sanitize_sql sql =
     (let sql1 = remove_line_comments sql;
          sql2 = remove_block_comments sql1
      in strip (collapse_whitespace sql2))"

section \<open>\<^verbatim>\<open>trendsql_kg/app/sql_safety.py\<close>\<close>

text \<open>
  \<^verbatim>\<open>SQLSafetyChecker\<close>. \<^verbatim>\<open>DANGEROUS_KEYWORDS\<close>, \<^verbatim>\<open>ALLOWED_KEYWORDS\<close> and
  \<^verbatim>\<open>ALLOWED_FUNCTIONS\<close> are Python sets; they are only tested for membership and joined
  into one alternation whose order does not change whether it matches.
\<close>

definition backslash :: char where
  "backslash = CHR 0x5C"

text \<open>\<^verbatim>\<open>s.lower()\<close>\<close>

definition lower_table :: "(char \<times> char) list" where
  "lower_table = zip ''ABCDEFGHIJKLMNOPQRSTUVWXYZ'' ''abcdefghijklmnopqrstuvwxyz''"

definition lower_char :: "char \<Rightarrow> char" where
  "lower_char c = (case map_of lower_table c of Some l \<Rightarrow> l | None \<Rightarrow> c)"

definition lower :: "string \<Rightarrow> string" where
  "lower s = map lower_char s"

definition DANGEROUS_KEYWORDS :: "string list" where
  "DANGEROUS_KEYWORDS =
    [''CREATE'', ''DROP'', ''ALTER'', ''TRUNCATE'', ''RENAME'', ''COMMENT'',
     ''INSERT'', ''UPDATE'', ''DELETE'', ''MERGE'', ''UPSERT'',
     ''BEGIN'', ''COMMIT'', ''ROLLBACK'', ''SAVEPOINT'', ''RELEASE'',
     ''GRANT'', ''REVOKE'', ''EXECUTE'', ''CALL'', ''DO'',
     ''COPY'', ''IMPORT'', ''EXPORT'',
     ''VACUUM'', ''ANALYZE'', ''REINDEX'', ''CLUSTER'',
     ''pg_read_file'', ''pg_write_file'', ''pg_ls_dir'']"

definition ALLOWED_KEYWORDS :: "string list" where
  "ALLOWED_KEYWORDS =
    [''SELECT'', ''FROM'', ''WHERE'', ''GROUP'', ''BY'', ''HAVING'', ''ORDER'', ''LIMIT'', ''OFFSET'',
     ''JOIN'', ''LEFT'', ''RIGHT'', ''INNER'', ''OUTER'', ''FULL'', ''CROSS'',
     ''ON'', ''USING'', ''AS'', ''DISTINCT'', ''ALL'',
     ''UNION'', ''INTERSECT'', ''EXCEPT'',
     ''WITH'', ''RECURSIVE'',
     ''CASE'', ''WHEN'', ''THEN'', ''ELSE'', ''END'',
     ''AND'', ''OR'', ''NOT'', ''IN'', ''EXISTS'', ''BETWEEN'', ''LIKE'', ''ILIKE'',
     ''IS'', ''NULL'', ''TRUE'', ''FALSE'',
     ''COUNT'', ''SUM'', ''AVG'', ''MIN'', ''MAX'', ''STDDEV'', ''VARIANCE'',
     ''COALESCE'', ''NULLIF'', ''GREATEST'', ''LEAST'',
     ''EXTRACT'', ''DATE_TRUNC'', ''NOW'', ''CURRENT_DATE'', ''CURRENT_TIMESTAMP'',
     ''TO_CHAR'', ''TO_DATE'', ''TO_TIMESTAMP'',
     ''UPPER'', ''LOWER'', ''TRIM'', ''LENGTH'', ''SUBSTRING'', ''REPLACE'',
     ''ROUND'', ''CEIL'', ''FLOOR'', ''ABS'', ''POWER'', ''SQRT'',
     ''RANDOM'', ''ROW_NUMBER'', ''RANK'', ''DENSE_RANK'', ''LAG'', ''LEAD'',
     ''FIRST_VALUE'', ''LAST_VALUE'', ''NTH_VALUE'',
     ''PARTITION'', ''OVER'', ''WINDOW'',
     ''EXPLAIN'', ''ANALYZE'']"

definition ALLOWED_FUNCTIONS :: "string list" where
  "ALLOWED_FUNCTIONS =
    [''count'', ''sum'', ''avg'', ''min'', ''max'', ''stddev'', ''variance'',
     ''coalesce'', ''nullif'', ''greatest'', ''least'',
     ''extract'', ''date_trunc'', ''now'', ''current_date'', ''current_timestamp'',
     ''to_char'', ''to_date'', ''to_timestamp'',
     ''upper'', ''lower'', ''trim'', ''length'', ''substring'', ''replace'',
     ''round'', ''ceil'', ''floor'', ''abs'', ''power'', ''sqrt'',
     ''random'', ''row_number'', ''rank'', ''dense_rank'', ''lag'', ''lead'',
     ''first_value'', ''last_value'', ''nth_value'',
     ''array_agg'', ''string_agg'', ''json_agg'', ''jsonb_agg'',
     ''json_build_object'', ''jsonb_build_object'',
     ''unnest'', ''generate_series'',
     ''similarity'', ''levenshtein'', ''soundex'',
     ''pg_trgm'', ''word_similarity'']"

text \<open>
  \<^verbatim>\<open>\s*$\<close> with \<^verbatim>\<open>re.MULTILINE\<close>: some prefix of the whitespace that follows ends at the
  end of the text or in front of a newline.
\<close>

definition spaces_to_eol :: "string \<Rightarrow> bool" where
  "spaces_to_eol rest =
     (let w = takeWhile is_space rest in length w = length rest \<or> newline \<in> set w)"

text \<open>
  \<^verbatim>\<open>dangerous_regex\<close> at a position, one disjunct for each of the nine joined patterns,
  in their order. The flags are \<^verbatim>\<open>IGNORECASE | MULTILINE | DOTALL\<close>: case is ignored by
  matching the upper-cased patterns against the upper-cased text, and \<^verbatim>\<open>--.*$\<close> matches
  wherever \<^verbatim>\<open>--\<close> stands, since \<^verbatim>\<open>.*\<close> now runs to the end of the text.
\<close>

definition kg_dangerous_at :: "bool \<Rightarrow> string \<Rightarrow> bool" where
  "kg_dangerous_at prev xs =
     (pat_keywords (map upper DANGEROUS_KEYWORDS) prev xs \<noteq> None \<or>
      startswith xs ''--'' \<or>
      (startswith xs ''/*'' \<and> find_str (drop 2 xs) ''*/'' \<noteq> None) \<or>
      (startswith xs '';'' \<and> spaces_to_eol (drop 1 xs)) \<or>
      (startswith xs [backslash] \<and> spaces_to_eol (drop 1 xs)) \<or>
      startswith xs ''XP_CMDSHELL'' \<or>
      startswith xs ''SP_EXECUTESQL'' \<or>
      (startswith xs ''EXEC'' \<and> startswith (dropWhile is_space (drop 4 xs)) ''('') \<or>
      (startswith xs ''EXECUTE'' \<and> startswith (dropWhile is_space (drop 7 xs)) ''(''))"

text \<open>\<^verbatim>\<open>bool(regex.search(s))\<close>: the pattern matches at some position.\<close>

fun re_search_bool :: "(bool \<Rightarrow> string \<Rightarrow> bool) \<Rightarrow> bool \<Rightarrow> string \<Rightarrow> bool" where
  "re_search_bool pat prev [] = pat prev []"
| "re_search_bool pat prev (c # cs) =
     (pat prev (c # cs) \<or> re_search_bool pat (is_word_char c) cs)"

definition kg_has_dangerous_patterns :: "string \<Rightarrow> bool" where
  "kg_has_dangerous_patterns sql = re_search_bool kg_dangerous_at False (upper sql)"

definition kg_normalize_sql :: "string \<Rightarrow> string" where
  "kg_normalize_sql sql =
     (let sql1 = strip sql;
          sql2 = remove_line_comments sql1
      in remove_block_comments sql2)"

text \<open>
  The parser is the library \<^verbatim>\<open>sqlparse\<close>, which is not part of the repository: it is a
  parameter of the model. What the checker reads of a token is its \<^verbatim>\<open>ttype\<close> (compared
  with \<^verbatim>\<open>tokens.Keyword\<close> and \<^verbatim>\<open>tokens.Name.Function\<close>), its \<^verbatim>\<open>value\<close> and
  \<^verbatim>\<open>is_whitespace\<close>; a group has no \<^verbatim>\<open>ttype\<close>, is not whitespace and holds tokens of its
  own. A statement is the list of its tokens.
\<close>

datatype ttype = Keyword | Name_Function | Other_ttype

datatype token = Token ttype string bool | Group "token list"

fun is_whitespace :: "token \<Rightarrow> bool" where
  "is_whitespace (Token ty v ws) = ws"
| "is_whitespace (Group ts) = False"

fun is_keyword_of :: "token \<Rightarrow> string \<Rightarrow> bool" where
  "is_keyword_of (Token ty v ws) k = (ty = Keyword \<and> upper v = k)"
| "is_keyword_of (Group ts) k = False"

text \<open>The loop of \<^verbatim>\<open>_is_select_query\<close> over the tokens of the first statement.\<close>

fun first_token_selects :: "token list \<Rightarrow> bool" where
  "first_token_selects [] = False"
| "first_token_selects (t # ts) =
     (if is_whitespace t then first_token_selects ts
      else if is_keyword_of t ''SELECT'' then True
      else if is_keyword_of t ''WITH'' then True
      else False)"

definition kg_is_select_query :: "token list list \<Rightarrow> bool" where
  "kg_is_select_query parsed_statements =
     (case parsed_statements of [] \<Rightarrow> False | statement # _ \<Rightarrow> first_token_selects statement)"

text \<open>\<^verbatim>\<open>check_token\<close> and \<^verbatim>\<open>check_statement\<close> of \<^verbatim>\<open>_has_dangerous_tokens\<close>.\<close>

fun check_token :: "token \<Rightarrow> bool" where
  "check_token (Group ts) = False"
| "check_token (Token ty v ws) =
     (if ws then False
      else if ty = Keyword \<and> upper v \<in> set DANGEROUS_KEYWORDS then True
      else if ty = Keyword \<and> upper v \<notin> set ALLOWED_KEYWORDS then True
      else if ty = Name_Function \<and> lower v \<notin> set ALLOWED_FUNCTIONS then True
      else False)"

fun check_statement :: "token list \<Rightarrow> bool" where
  "check_statement [] = False"
| "check_statement (Token ty v ws # ts) =
     (check_token (Token ty v ws) \<or> check_statement ts)"
| "check_statement (Group g # ts) =
     (check_token (Group g) \<or> check_statement g \<or> check_statement ts)"

definition kg_has_dangerous_tokens :: "token list list \<Rightarrow> bool" where
  "kg_has_dangerous_tokens parsed_statements = list_ex check_statement parsed_statements"

text \<open>
  \<^verbatim>\<open>check_sql_safety\<close>. The parser returns the statements or, as \<open>Inl\<close>, the text of the
  exception it raised inside the \<^verbatim>\<open>try\<close> block, which the \<^verbatim>\<open>except\<close> clause turns into
  a verdict.
\<close>

definition check_sql_safety :: "(string \<Rightarrow> string + token list list) \<Rightarrow> string \<Rightarrow> bool \<times> string option" where
  "check_sql_safety parse sql =
     (if sql = [] \<or> strip sql = [] then (False, Some ''Empty SQL query'')
      else
        let normalized_sql = kg_normalize_sql sql in
        if kg_has_dangerous_patterns normalized_sql
        then (False, Some ''Query contains dangerous SQL patterns'')
        else
          case parse normalized_sql of
            Inl e \<Rightarrow> (False, Some (''SQL parsing error: '' @ e))
          | Inr parsed \<Rightarrow>
              if parsed = [] then (False, Some ''Unable to parse SQL query'')
              else if \<not> kg_is_select_query parsed
              then (False, Some ''Only SELECT queries are allowed'')
              else if kg_has_dangerous_tokens parsed
              then (False, Some ''Query contains dangerous SQL tokens'')
              else if length parsed > 1
              then (False, Some ''Multiple SQL statements are not allowed'')
              else (True, None))"

text \<open>
  \<^verbatim>\<open>SQLSafetyChecker.sanitize_sql\<close>. \<^verbatim>\<open>sql.split(';')[0]\<close> is the text in front of the
  first semicolon. In \<^verbatim>\<open>re.sub(r'\\\s*\n', ' ', sql)\<close> the greedy \<^verbatim>\<open>\s*\<close> gives back
  whitespace until a newline follows it, so a match ends with the last newline of the
  whitespace behind the backslash.
\<close>

definition continuation_end :: "string \<Rightarrow> nat option" where
  "continuation_end rest =
     (let w = takeWhile is_space rest
      in if newline \<in> set w
         then Some (length w - length (takeWhile (\<lambda>c. c \<noteq> newline) (rev w)))
         else None)"

fun remove_line_continuations :: "string \<Rightarrow> string" where
  "remove_line_continuations [] = []"
| "remove_line_continuations (c # cs) =
     (if c = backslash
      then (case continuation_end cs of
              Some n \<Rightarrow> CHR '' '' # remove_line_continuations (drop n cs)
            | None \<Rightarrow> c # remove_line_continuations cs)
      else c # remove_line_continuations cs)"

definition kg_sanitize_sql :: "string \<Rightarrow> string" where
  "kg_sanitize_sql sql =
     (let sql1 = remove_line_comments sql;
          sql2 = remove_block_comments sql1;
          sql3 = strip (takeWhile (\<lambda>c. c \<noteq> CHR '';'') sql2)
      in remove_line_continuations sql3)"

section \<open>\<^verbatim>\<open>trendsql/app/pagination.py\<close>\<close>

text \<open>\<^verbatim>\<open>s.rfind(sub)\<close>: the highest index at which \<open>sub\<close> starts, \<open>None\<close> for \<open>-1\<close>.\<close>

fun rfind :: "string \<Rightarrow> string \<Rightarrow> nat option" where
  "rfind [] sub = (if sub = [] then Some 0 else None)"
| "rfind (c # cs) sub =
     (case rfind cs sub of
        Some i \<Rightarrow> Some (Suc i)
      | None \<Rightarrow> if startswith (c # cs) sub then Some 0 else None)"

text \<open>\<^verbatim>\<open>s.find(sub, start)\<close> for \<open>start\<close> within the text.\<close>

definition find_from :: "string \<Rightarrow> string \<Rightarrow> nat \<Rightarrow> nat option" where
  "find_from s sub start = map_option (\<lambda>i. start + i) (find_str (drop start s) sub)"

definition add_pagination :: "string \<Rightarrow> int \<Rightarrow> int \<Rightarrow> string" where
  "add_pagination sql page page_size =
     (let sql_upper = upper sql;
          sql' = (case rfind sql_upper ''LIMIT'' of
                    None \<Rightarrow> sql
                  | Some limit_pos \<Rightarrow>
                      (let end_pos = (case find_from sql '';'' limit_pos of
                                        None \<Rightarrow> length sql
                                      | Some e \<Rightarrow> e)
                       in rstrip (take limit_pos sql) @ drop end_pos sql));
          offset = (page - 1) * page_size
      in rstrip sql' @ '' LIMIT '' @ str_int page_size @ '' OFFSET '' @ str_int offset)"

definition validate_pagination_params :: "int \<Rightarrow> int \<Rightarrow> int \<times> int" where
  "validate_pagination_params page page_size =
     (let page' = max 1 page;
          page_size' = max 1 (min 1000 page_size)
      in (page', page_size'))"

section \<open>\<^verbatim>\<open>trendsql_kg/app/pagination.py\<close>\<close>

text \<open>
  The two substitutions of \<^verbatim>\<open>_remove_existing_pagination\<close>, both with
  \<^verbatim>\<open>re.IGNORECASE\<close>. A literal of capital letters matches a text whose upper-cased
  characters are the same; \<^verbatim>\<open>\s+\<close> and \<^verbatim>\<open>\d+\<close> take the longest run, since what
  follows each of them in these patterns starts with a character of another class; the
  result is the text behind what was matched.
\<close>

definition ci_lit :: "string \<Rightarrow> string \<Rightarrow> string option" where
  "ci_lit k xs = (if startswith (upper xs) k then Some (drop (length k) xs) else None)"

definition spaces1 :: "string \<Rightarrow> string option" where
  "spaces1 xs = (case xs of [] \<Rightarrow> None
                 | c # cs \<Rightarrow> if is_space c then Some (dropWhile is_space cs) else None)"

definition digits1 :: "string \<Rightarrow> string option" where
  "digits1 xs = (case xs of [] \<Rightarrow> None
                 | c # cs \<Rightarrow> if is_digit c then Some (dropWhile is_digit cs) else None)"

text \<open>\<^verbatim>\<open>OFFSET\s+\d+\<close>\<close>

definition offset_tail :: "string \<Rightarrow> string option" where
  "offset_tail xs = Option.bind (ci_lit ''OFFSET'' xs) (\<lambda>r. Option.bind (spaces1 r) digits1)"

text \<open>
  \<^verbatim>\<open>\s*$\<close> without \<^verbatim>\<open>re.MULTILINE\<close>: only whitespace is left, and the match takes all of
  it.
\<close>

definition spaces_to_end :: "string \<Rightarrow> bool" where
  "spaces_to_end xs = list_all is_space xs"

text \<open>
  \<^verbatim>\<open>\bLIMIT\s+\d+(\s+OFFSET\s+\d+)?\s*$\<close> at a position: the optional group is tried first,
  and dropped when the rest does not match behind it.
\<close>

definition pat_limit_clause :: "bool \<Rightarrow> string \<Rightarrow> bool" where
  "pat_limit_clause prev xs =
     (word_boundary prev xs \<and>
      (case Option.bind (ci_lit ''LIMIT'' xs) (\<lambda>r. Option.bind (spaces1 r) digits1) of
         None \<Rightarrow> False
       | Some r \<Rightarrow>
           (case Option.bind (spaces1 r) offset_tail of
              Some r' \<Rightarrow> spaces_to_end r' \<or> spaces_to_end r
            | None \<Rightarrow> spaces_to_end r)))"

text \<open>\<^verbatim>\<open>\bOFFSET\s+\d+\s*$\<close> at a position.\<close>

definition pat_offset_clause :: "bool \<Rightarrow> string \<Rightarrow> bool" where
  "pat_offset_clause prev xs =
     (word_boundary prev xs \<and>
      (case offset_tail xs of None \<Rightarrow> False | Some r \<Rightarrow> spaces_to_end r))"

text \<open>
  \<^verbatim>\<open>re.sub(pattern, '', sql)\<close> for a pattern that ends in \<^verbatim>\<open>$\<close> and cannot match the
  empty text: the leftmost match runs to the end of the text, so the result is what
  stands before it.
\<close>

fun re_sub_to_end :: "(bool \<Rightarrow> string \<Rightarrow> bool) \<Rightarrow> bool \<Rightarrow> string \<Rightarrow> string" where
  "re_sub_to_end pat prev [] = []"
| "re_sub_to_end pat prev (c # cs) =
     (if pat prev (c # cs) then [] else c # re_sub_to_end pat (is_word_char c) cs)"

definition kg_remove_existing_pagination :: "string \<Rightarrow> string" where
  "kg_remove_existing_pagination sql =
     (let sql1 = re_sub_to_end pat_limit_clause False sql;
          sql2 = re_sub_to_end pat_offset_clause False sql1
      in strip sql2)"

text \<open>\<^verbatim>\<open>PaginationHelper.add_pagination\<close>\<close>

definition kg_add_pagination :: "string \<Rightarrow> int \<Rightarrow> int \<Rightarrow> string" where
  "kg_add_pagination sql page page_size =
     (let page' = (if page < 1 then 1 else page);
          page_size' = (if page_size < 1 then 50 else page_size);
          offset = (page' - 1) * page_size';
          sql_upper = strip (upper sql);
          sql' = (if contains ''LIMIT'' sql_upper \<or> contains ''OFFSET'' sql_upper
                  then kg_remove_existing_pagination sql else sql)
      in sql' @ '' LIMIT '' @ str_int page_size' @ '' OFFSET '' @ str_int offset)"

text \<open>
  \<^verbatim>\<open>PaginationHelper.validate_pagination_params\<close>; \<^verbatim>\<open>max_page_size\<close> defaults to 1000.
\<close>

definition kg_validate_pagination_params :: "int \<Rightarrow> int \<Rightarrow> int \<Rightarrow> int \<times> int" where
  "kg_validate_pagination_params page page_size max_page_size =
     (let page' = (if page < 1 then 1 else page);
          page_size' = (if page_size < 1 then 50
                        else if page_size > max_page_size then max_page_size
                        else page_size)
      in (page', page_size'))"

section \<open>Auxiliary predicates\<close>

text \<open>A keyword-like literal: not empty, with a word character at either end.\<close>

definition kw_like :: "string \<Rightarrow> bool" where
  "kw_like k = (k \<noteq> [] \<and> is_word_char (hd k) \<and> is_word_char (last k))"

text \<open>
  Text in which every whitespace character is a blank that no whitespace follows.
\<close>

fun single_spaced :: "string \<Rightarrow> bool" where
  "single_spaced [] = True"
| "single_spaced (c # cs) =
     ((is_space c \<longrightarrow> c = CHR '' '' \<and> (cs = [] \<or> \<not> is_space (hd cs))) \<and> single_spaced cs)"

section \<open>Facts about the text primitives and the keyword search\<close>

lemma startswith_iff: "startswith s p \<longleftrightarrow> (\<exists>r. s = p @ r)"
  by (induction s p rule: startswith.induct) auto

lemma startswith_append [simp]: "startswith (p @ r) p"
  by (simp add: startswith_iff)

lemma startswith_self [simp]: "startswith k k"
  by (simp add: startswith_iff)

lemma lit_b_occurrence:
  assumes "kw_like k" "post = [] \<or> \<not> is_word_char (hd post)"
  shows "lit_b prev (k @ post) k"
  using assms by (cases post) (auto simp: lit_b_def after_lit_def word_boundary_def kw_like_def)

lemma pat_keywords_at_occurrence:
  assumes "k \<in> set alts" "kw_like k" "post = [] \<or> \<not> is_word_char (hd post)"
  shows "pat_keywords alts False (k @ post) \<noteq> None"
proof -
  have "word_boundary False (k @ post)"
    using assms(2) by (cases k) (auto simp: word_boundary_def kw_like_def)
  moreover have "find (lit_b False (k @ post)) alts \<noteq> None"
    using assms lit_b_occurrence [of k post False] by (auto simp: find_None_iff)
  ultimately show ?thesis by (simp add: pat_keywords_def)
qed

lemma re_search_complete:
  assumes "k \<in> set alts" "kw_like k" "post = [] \<or> \<not> is_word_char (hd post)"
    and "pre = [] \<longrightarrow> \<not> prev" "pre \<noteq> [] \<longrightarrow> \<not> is_word_char (last pre)"
  shows "re_search (pat_keywords alts) prev (pre @ k @ post) \<noteq> None"
  using assms(4,5)
proof (induction pre arbitrary: prev)
  case Nil
  obtain c cs where kc: "k @ post = c # cs"
    using assms(2) by (cases k) (auto simp: kw_like_def)
  have "pat_keywords alts False (k @ post) \<noteq> None"
    by (rule pat_keywords_at_occurrence [OF assms(1-3)])
  with Nil kc show ?case by (auto split: option.splits)
next
  case (Cons a pre)
  have "re_search (pat_keywords alts) (is_word_char a) (pre @ k @ post) \<noteq> None"
    using Cons.prems by (intro Cons.IH) (auto split: if_splits)
  then show ?case by (auto split: option.splits)
qed

lemma lit_b_sound:
  assumes "lit_b prev xs k" "kw_like k"
  shows "\<exists>post. xs = k @ post \<and> (post = [] \<or> \<not> is_word_char (hd post))"
proof -
  from assms(1) obtain post where xs: "xs = k @ post"
    by (auto simp: lit_b_def startswith_iff)
  with assms show ?thesis
    by (cases post) (auto simp: lit_b_def after_lit_def word_boundary_def kw_like_def)
qed

lemma pat_keywords_sound:
  assumes "pat_keywords alts prev xs = Some g" "\<forall>k\<in>set alts. kw_like k"
  shows "g \<in> set alts \<and> \<not> prev \<and> (\<exists>post. xs = g @ post \<and> (post = [] \<or> \<not> is_word_char (hd post)))"
proof -
  from assms(1) have wb: "word_boundary prev xs" and f: "find (lit_b prev xs) alts = Some g"
    by (auto simp: pat_keywords_def split: if_splits)
  from f have g: "g \<in> set alts" "lit_b prev xs g"
    by (auto simp: find_Some_iff)
  with assms(2) have kw: "kw_like g" by blast
  from lit_b_sound [OF g(2) kw] obtain post where
    xs: "xs = g @ post" "post = [] \<or> \<not> is_word_char (hd post)" by blast
  from kw xs wb have "\<not> prev"
    by (cases g) (auto simp: word_boundary_def kw_like_def)
  with g xs show ?thesis by blast
qed

lemma re_search_sound:
  assumes "re_search (pat_keywords alts) prev t = Some g" "\<forall>k\<in>set alts. kw_like k"
  shows "g \<in> set alts \<and> (\<exists>pre post. t = pre @ g @ post \<and>
           (pre = [] \<longrightarrow> \<not> prev) \<and> (pre \<noteq> [] \<longrightarrow> \<not> is_word_char (last pre)) \<and>
           (post = [] \<or> \<not> is_word_char (hd post)))"
  using assms(1)
proof (induction t arbitrary: prev)
  case Nil
  from pat_keywords_sound [OF _ assms(2), of prev "[]" g] Nil
  show ?case by auto
next
  case (Cons c cs)
  show ?case
  proof (cases "pat_keywords alts prev (c # cs)")
    case (Some h)
    with Cons.prems have "h = g" by simp
    with Some pat_keywords_sound [OF _ assms(2), of prev "c # cs" g]
    obtain post where "g \<in> set alts" "\<not> prev" "c # cs = g @ post" "post = [] \<or> \<not> is_word_char (hd post)"
      by blast
    then show ?thesis by (intro conjI exI [of _ "[]"] exI [of _ post]) auto
  next
    case None
    with Cons.prems have "re_search (pat_keywords alts) (is_word_char c) cs = Some g" by simp
    from Cons.IH [OF this] obtain pre post where
      *: "g \<in> set alts" "cs = pre @ g @ post" "pre = [] \<longrightarrow> \<not> is_word_char c"
         "pre \<noteq> [] \<longrightarrow> \<not> is_word_char (last pre)" "post = [] \<or> \<not> is_word_char (hd post)"
      by blast
    then show ?thesis
      by (intro conjI exI [of _ "c # pre"] exI [of _ post]) auto
  qed
qed

lemma kw_like_dml: "\<forall>k\<in>set dml_keywords. kw_like k"
  by (simp add: dml_keywords_def kw_like_def is_word_char_def)

lemma kw_like_exec: "\<forall>k\<in>set exec_keywords. kw_like k"
  by (simp add: exec_keywords_def kw_like_def is_word_char_def)

lemma ensure_safe_select_dangerous:
  "first_dangerous dangerous_patterns (upper (strip s)) = Some g \<Longrightarrow>
   ensure_safe_select s = (False, Some (''SQL contains forbidden keyword: '' @ g))"
  by (simp add: ensure_safe_select_def)

lemma takeWhile_kw:
  assumes "\<forall>c\<in>set k. is_word_char c" "post = [] \<or> \<not> is_word_char (hd post)"
  shows "takeWhile is_word_char (k @ post) = k"
  using assms by (cases post) (auto simp: takeWhile_append2)

lemma allowed_start_iff:
  "allowed_start t \<longleftrightarrow> takeWhile is_word_char t \<in> {''WITH'', ''SELECT'', ''EXPLAIN''}"
proof
  assume "allowed_start t"
  then have "\<exists>k\<in>set [''WITH'', ''SELECT'', ''EXPLAIN'']. lit_b False t k"
    unfolding allowed_start_def find_None_iff by blast
  then obtain k where k: "k \<in> set [''WITH'', ''SELECT'', ''EXPLAIN'']" "lit_b False t k"
    by blast
  then have kw: "kw_like k" "\<forall>c\<in>set k. is_word_char c"
    by (auto simp: kw_like_def is_word_char_def)
  from lit_b_sound [OF k(2) kw(1)] obtain post where
    "t = k @ post" "post = [] \<or> \<not> is_word_char (hd post)" by blast
  with takeWhile_kw [OF kw(2)] have "takeWhile is_word_char t = k" by simp
  with k(1) show "takeWhile is_word_char t \<in> {''WITH'', ''SELECT'', ''EXPLAIN''}" by auto
next
  assume a: "takeWhile is_word_char t \<in> {''WITH'', ''SELECT'', ''EXPLAIN''}"
  define k where "k = takeWhile is_word_char t"
  define post where "post = dropWhile is_word_char t"
  have t: "t = k @ post" by (simp add: k_def post_def)
  have p: "post = [] \<or> \<not> is_word_char (hd post)"
    unfolding post_def by (metis hd_dropWhile)
  from a have kin: "k \<in> set [''WITH'', ''SELECT'', ''EXPLAIN'']" by (auto simp: k_def)
  then have "kw_like k" by (auto simp: kw_like_def is_word_char_def)
  from lit_b_occurrence [OF this p, of False] t have "lit_b False t k" by simp
  with kin show "allowed_start t"
    unfolding allowed_start_def find_None_iff by blast
qed


lemma upper_append [simp]: "upper (a @ b) = upper a @ upper b"
  by (simp add: upper_def)




section \<open>Facts about the sanitizer\<close>

lemma remove_line_comments_id:
  "\<not> contains ''--'' t \<Longrightarrow> remove_line_comments t = t"
  by (induction t) auto

lemma remove_block_comments_id:
  "\<not> contains ''/*'' t \<Longrightarrow> remove_block_comments t = t"
  by (induction t) auto

lemma collapse_whitespace_hd:
  "xs = [] \<or> \<not> is_space (hd xs) \<Longrightarrow>
   collapse_whitespace xs = [] \<or> \<not> is_space (hd (collapse_whitespace xs))"
  by (cases xs) auto

lemma single_spaced_collapse: "single_spaced (collapse_whitespace x)"
proof (induction x rule: collapse_whitespace.induct)
  case 1
  show ?case by simp
next
  case (2 c cs)
  show ?case
  proof (cases "is_space c")
    case True
    have "dropWhile is_space cs = [] \<or> \<not> is_space (hd (dropWhile is_space cs))"
      by (metis hd_dropWhile)
    from collapse_whitespace_hd [OF this] True 2 show ?thesis by auto
  next
    case False
    with 2 show ?thesis by simp
  qed
qed

lemma single_spaced_append:
  "single_spaced (a @ b) \<Longrightarrow> single_spaced a \<and> single_spaced b"
proof (induction a)
  case Nil
  then show ?case by simp
next
  case (Cons c a)
  then show ?case by (cases a) auto
qed

lemma rstrip_prefix: "\<exists>r. l = rstrip l @ r"
proof -
  have "rev (dropWhile is_space (rev l)) @ rev (takeWhile is_space (rev l)) =
      rev (takeWhile is_space (rev l) @ dropWhile is_space (rev l))"
    by (simp only: rev_append)
  also have "\<dots> = l"
    by (simp only: takeWhile_dropWhile_id rev_rev_ident)
  finally have "l = rstrip l @ rev (takeWhile is_space (rev l))"
    by (simp only: rstrip_def)
  then show ?thesis ..
qed

lemma lstrip_suffix: "\<exists>r. l = r @ lstrip l"
  unfolding lstrip_def by (metis takeWhile_dropWhile_id)

lemma single_spaced_strip: "single_spaced t \<Longrightarrow> single_spaced (strip t)"
proof -
  assume a: "single_spaced t"
  obtain r where "t = r @ lstrip t" using lstrip_suffix by blast
  with a single_spaced_append [of r "lstrip t"] have l: "single_spaced (lstrip t)" by simp
  obtain r' where "lstrip t = rstrip (lstrip t) @ r'" using rstrip_prefix by blast
  with l single_spaced_append [of "rstrip (lstrip t)" r'] show ?thesis
    by (simp add: strip_def)
qed

lemma collapse_whitespace_id: "single_spaced t \<Longrightarrow> collapse_whitespace t = t"
proof (induction t)
  case Nil
  then show ?case by simp
next
  case (Cons c cs)
  then show ?case by (cases cs) auto
qed

lemma lstrip_id: "t = [] \<or> \<not> is_space (hd t) \<Longrightarrow> lstrip t = t"
  by (cases t) (auto simp: lstrip_def)

lemma rstrip_last: "rstrip x = [] \<or> \<not> is_space (last (rstrip x))"
  unfolding rstrip_def by (metis hd_dropWhile last_rev rev_is_Nil_conv)

lemma rstrip_id: "t = [] \<or> \<not> is_space (last t) \<Longrightarrow> rstrip t = t"
proof (cases "t = []")
  case True
  then show ?thesis by (simp add: rstrip_def)
next
  case False
  assume "t = [] \<or> \<not> is_space (last t)"
  with False have "\<not> is_space (hd (rev t))" by (simp add: hd_rev)
  with False have "dropWhile is_space (rev t) = rev t" by (cases "rev t") auto
  then show ?thesis by (simp add: rstrip_def)
qed

lemma rstrip_rstrip [simp]: "rstrip (rstrip x) = rstrip x"
  by (rule rstrip_id) (rule rstrip_last)

lemma strip_hd: "strip y = [] \<or> \<not> is_space (hd (strip y))"
proof (cases "strip y = []")
  case True
  then show ?thesis ..
next
  case False
  obtain r where r: "lstrip y = strip y @ r"
    using rstrip_prefix [of "lstrip y"] by (auto simp: strip_def)
  with False have "hd (lstrip y) = hd (strip y)" by (metis hd_append2)
  moreover from r False have "lstrip y \<noteq> []" by auto
  then have "\<not> is_space (hd (lstrip y))" unfolding lstrip_def by (metis hd_dropWhile)
  ultimately show ?thesis by simp
qed

lemma strip_strip [simp]: "strip (strip y) = strip y"
proof -
  have "lstrip (strip y) = strip y" by (rule lstrip_id) (rule strip_hd)
  moreover have "rstrip (strip y) = strip y" by (simp add: strip_def)
  ultimately show ?thesis by (simp add: strip_def [of "strip y"])
qed

lemma normalise_fixed:
  "strip (collapse_whitespace (strip (collapse_whitespace x))) = strip (collapse_whitespace x)"
proof -
  have "single_spaced (strip (collapse_whitespace x))"
    by (rule single_spaced_strip) (rule single_spaced_collapse)
  then show ?thesis by (simp add: collapse_whitespace_id)
qed

lemma dropWhile_line_append:
  "dropWhile (\<lambda>x. x \<noteq> newline) (cs @ r) =
     (if newline \<in> set cs then dropWhile (\<lambda>x. x \<noteq> newline) cs @ r
      else dropWhile (\<lambda>x. x \<noteq> newline) r)"
  by (induction cs) auto

lemma line_comment_removed:
  assumes "newline \<notin> set b" "rest = [] \<or> hd rest = newline" "a = [] \<or> last a \<noteq> CHR ''-''"
  shows "remove_line_comments (a @ ''--'' @ b @ rest) = remove_line_comments (a @ rest)"
  using assms(3)
proof (induction a rule: remove_line_comments.induct)
  case 1
  have "dropWhile (\<lambda>x. x \<noteq> newline) (CHR ''-'' # b @ rest) = rest"
    using assms(1,2) by (cases rest) (auto simp: newline_def dropWhile_append3)
  then show ?case by simp
next
  case (2 c cs)
  have tail: "dropWhile (\<lambda>x. x \<noteq> newline) (''--'' @ b @ rest) = rest"
    using assms(1,2) by (cases rest) (auto simp: newline_def dropWhile_append3)
  have tail': "dropWhile (\<lambda>x. x \<noteq> newline) rest = rest"
    using assms(2) by (cases rest) auto
  show ?case
  proof (cases "startswith (c # cs) ''--''")
    case True
    then have sw: "startswith (c # cs @ r) ''--''" for r
      by (cases cs) auto
    show ?thesis
    proof (cases "newline \<in> set cs")
      case True
      define cs' where "cs' = dropWhile (\<lambda>x. x \<noteq> newline) cs"
      from True have ne: "cs' \<noteq> []" by (auto simp: cs'_def)
      have "\<exists>p. cs = p @ cs'" unfolding cs'_def by (metis takeWhile_dropWhile_id)
      with ne have "last cs' = last cs" by auto
      with 2(3) ne have "cs' = [] \<or> last cs' \<noteq> CHR ''-''"
        using \<open>newline \<in> set cs\<close> by (cases cs) auto
      from 2(1) [OF \<open>startswith (c # cs) ''--''\<close>, folded cs'_def, OF this] sw True
      show ?thesis by (simp add: dropWhile_line_append cs'_def)
    next
      case False
      with sw tail tail' show ?thesis
        by (simp add: dropWhile_line_append)
    qed
  next
    case False
    have cond: "cs = [] \<or> last cs \<noteq> CHR ''-''"
      using 2(3) by (cases cs) auto
    have n1: "\<not> startswith (c # cs @ ''--'' @ b @ rest) ''--''"
      using False 2(3) by (cases cs) auto
    have n2: "\<not> startswith (c # cs @ rest) ''--''"
    proof (cases cs)
      case Nil
      with 2(3) assms(2) show ?thesis by (cases rest) (auto simp: newline_def)
    next
      case (Cons d ds)
      with False show ?thesis by auto
    qed
    from n1 n2 2(2) [OF False cond] show ?thesis by (simp cong: conj_cong)
  qed
qed


lemma contains_prefix: "contains sub (sub @ r)"
proof (cases "sub @ r")
  case Nil
  then show ?thesis by simp
next
  case (Cons c cs)
  have "startswith (sub @ r) sub" by simp
  with Cons show ?thesis by simp
qed

lemma contains_occurrence: "contains sub (a @ sub @ r)"
proof (induction a)
  case Nil
  show ?case using contains_prefix by simp
next
  case (Cons x a)
  then show ?case by simp
qed

lemma find_str_Some:
  "find_str xs sub = Some i \<Longrightarrow> xs = take i xs @ sub @ drop (i + length sub) xs"
proof (induction xs arbitrary: i)
  case Nil
  then show ?case by (auto split: if_splits)
next
  case (Cons c cs)
  show ?case
  proof (cases "startswith (c # cs) sub")
    case True
    with Cons.prems have "i = 0" by simp
    moreover from True obtain r where "c # cs = sub @ r" by (auto simp: startswith_iff)
    ultimately show ?thesis by simp
  next
    case False
    with Cons.prems obtain j where j: "find_str cs sub = Some j" "i = Suc j" by auto
    from Cons.IH [OF j(1)] j(2) show ?thesis by simp
  qed
qed

lemma remove_block_comments_no_block:
  assumes "\<forall>a b c. t \<noteq> a @ ''/*'' @ b @ ''*/'' @ c"
  shows "remove_block_comments t = t"
  using assms
proof (induction t)
  case Nil
  then show ?case by simp
next
  case (Cons x xs)
  have tl: "\<forall>a b c. xs \<noteq> a @ ''/*'' @ b @ ''*/'' @ c"
  proof (intro allI notI)
    fix a b c assume "xs = a @ ''/*'' @ b @ ''*/'' @ c"
    then have "x # xs = (x # a) @ ''/*'' @ b @ ''*/'' @ c" by simp
    with Cons.prems show False by blast
  qed
  have "\<not> (startswith (x # xs) ''/*'' \<and> find_str (tl xs) ''*/'' \<noteq> None)"
  proof
    assume a: "startswith (x # xs) ''/*'' \<and> find_str (tl xs) ''*/'' \<noteq> None"
    then obtain r where r: "x # xs = ''/*'' @ r" by (auto simp: startswith_iff)
    then have "tl xs = r" by auto
    with a obtain i where "find_str r ''*/'' = Some i" by auto
    from find_str_Some [OF this] r
    have "x # xs = [] @ ''/*'' @ take i r @ ''*/'' @ drop (i + 2) r" by simp
    with Cons.prems show False by blast
  qed
  with Cons.IH [OF tl] show ?case by (auto split: option.splits)
qed

lemma remove_block_comments_prefix:
  assumes "\<not> contains ''/*'' a"
  shows "remove_block_comments (a @ ''/*'' @ r) = a @ remove_block_comments (''/*'' @ r)"
  using assms
proof (induction a)
  case Nil
  then show ?case by simp
next
  case (Cons x xs)
  then have "\<not> startswith (x # xs @ ''/*'' @ r) ''/*''"
    by (cases xs) auto
  with Cons show ?case by (simp cong: conj_cong)
qed

lemma find_str_first_close:
  assumes "\<not> contains ''*/'' (b @ ''*'')"
  shows "find_str (b @ ''*/'' @ rest) ''*/'' = Some (length b)"
  using assms
proof (induction b)
  case Nil
  then show ?case by simp
next
  case (Cons x xs)
  then have "\<not> startswith (x # xs @ ''*/'' @ rest) ''*/''"
    by (cases xs) auto
  with Cons show ?case by (simp cong: conj_cong)
qed

lemma block_comment_removed:
  assumes "\<not> contains ''/*'' a" "\<not> contains ''*/'' (b @ ''*'')"
  shows "remove_block_comments (a @ ''/*'' @ b @ ''*/'' @ rest) = a @ remove_block_comments rest"
proof -
  have "remove_block_comments (''/*'' @ b @ ''*/'' @ rest) = remove_block_comments rest"
    using find_str_first_close [OF assms(2), of rest] by simp
  with remove_block_comments_prefix [OF assms(1), of "b @ ''*/'' @ rest"] show ?thesis
    by simp
qed


lemma no_block_without_opener:
  assumes "\<not> contains ''/*'' t"
  shows "\<forall>a b c. t \<noteq> a @ ''/*'' @ b @ ''*/'' @ c"
proof (intro allI notI)
  fix a b c assume "t = a @ ''/*'' @ b @ ''*/'' @ c"
  then have "contains ''/*'' t"
    using contains_occurrence [of "''/*''" a "b @ ''*/'' @ c"] by simp
  with assms show False by simp
qed

lemma length_remove_line_comments: "length (remove_line_comments x) \<le> length x"
proof (induction x rule: remove_line_comments.induct)
  case 1
  show ?case by simp
next
  case (2 c cs)
  show ?case
  proof (cases "startswith (c # cs) ''--''")
    case True
    have "length (dropWhile (\<lambda>x. x \<noteq> newline) cs) \<le> length cs"
      by (rule length_dropWhile_le)
    with 2(1) [OF True] have "length (remove_line_comments (dropWhile (\<lambda>x. x \<noteq> newline) cs)) \<le> length cs"
      by linarith
    moreover from True have "remove_line_comments (c # cs) =
        remove_line_comments (dropWhile (\<lambda>x. x \<noteq> newline) cs)"
      by (simp only: remove_line_comments.simps if_True)
    ultimately show ?thesis by simp
  next
    case False
    then have "remove_line_comments (c # cs) = c # remove_line_comments cs"
      by (simp only: remove_line_comments.simps if_False)
    with 2(2) [OF False] show ?thesis by simp
  qed
qed

lemma remove_line_comments_shorter:
  "contains ''--'' t \<Longrightarrow> length (remove_line_comments t) < length t"
proof (induction t)
  case Nil
  then show ?case by simp
next
  case (Cons c cs)
  show ?case
  proof (cases "startswith (c # cs) ''--''")
    case True
    then have "remove_line_comments (c # cs) =
        remove_line_comments (dropWhile (\<lambda>x. x \<noteq> newline) cs)"
      by (simp only: remove_line_comments.simps if_True)
    moreover have "length (remove_line_comments (dropWhile (\<lambda>x. x \<noteq> newline) cs)) \<le>
        length (dropWhile (\<lambda>x. x \<noteq> newline) cs)"
      by (rule length_remove_line_comments)
    moreover have "length (dropWhile (\<lambda>x. x \<noteq> newline) cs) \<le> length cs"
      by (rule length_dropWhile_le)
    ultimately show ?thesis by simp
  next
    case False
    with Cons.prems have "contains ''--'' cs" by (simp only: contains.simps simp_thms)
    from Cons.IH [OF this] False show ?thesis
      by (simp only: remove_line_comments.simps if_False) simp
  qed
qed

lemma remove_block_comments_keep:
  "\<not> startswith (c # cs) ''/*'' \<Longrightarrow>
   remove_block_comments (c # cs) = c # remove_block_comments cs"
  by (simp only: remove_block_comments.simps if_False)

lemma remove_block_comments_open:
  "startswith (c # cs) ''/*'' \<Longrightarrow> find_str (tl cs) ''*/'' = None \<Longrightarrow>
   remove_block_comments (c # cs) = c # remove_block_comments cs"
  by (simp only: remove_block_comments.simps if_True option.case)

lemma remove_block_comments_match:
  "startswith (c # cs) ''/*'' \<Longrightarrow> find_str (tl cs) ''*/'' = Some i \<Longrightarrow>
   remove_block_comments (c # cs) = remove_block_comments (drop (i + 2) (tl cs))"
  by (simp only: remove_block_comments.simps if_True option.case)

lemma length_remove_block_comments: "length (remove_block_comments x) \<le> length x"
proof (induction x rule: remove_block_comments.induct)
  case 1
  show ?case by simp
next
  case (2 c cs)
  show ?case
  proof (cases "startswith (c # cs) ''/*''")
    case True
    show ?thesis
    proof (cases "find_str (tl cs) ''*/''")
      case None
      from 2(1) [OF True None] show ?thesis
        unfolding remove_block_comments_open [OF True None] by simp
    next
      case (Some i)
      from 2(2) [OF True Some]
      have "length (remove_block_comments (drop (i + 2) (tl cs))) \<le> length cs"
        by simp
      then show ?thesis
        unfolding remove_block_comments_match [OF True Some] by simp
    qed
  next
    case False
    from 2(3) [OF False] show ?thesis
      unfolding remove_block_comments_keep [OF False] by simp
  qed
qed

lemma remove_block_comments_same_length:
  "length (remove_block_comments x) = length x \<Longrightarrow> remove_block_comments x = x"
proof (induction x rule: remove_block_comments.induct)
  case 1
  show ?case by simp
next
  case (2 c cs)
  show ?case
  proof (cases "startswith (c # cs) ''/*''")
    case True
    show ?thesis
    proof (cases "find_str (tl cs) ''*/''")
      case None
      from 2(4) have "length (remove_block_comments cs) = length cs"
        unfolding remove_block_comments_open [OF True None] by simp
      from 2(1) [OF True None this] show ?thesis
        unfolding remove_block_comments_open [OF True None] by simp
    next
      case (Some i)
      have "length (remove_block_comments (drop (i + 2) (tl cs))) \<le> length (drop (i + 2) (tl cs))"
        by (rule length_remove_block_comments)
      then have "length (remove_block_comments (drop (i + 2) (tl cs))) < length (c # cs)"
        by simp
      with 2(4) show ?thesis
        unfolding remove_block_comments_match [OF True Some] by simp
    qed
  next
    case False
    from 2(4) have "length (remove_block_comments cs) = length cs"
      unfolding remove_block_comments_keep [OF False] by simp
    from 2(3) [OF False this] show ?thesis
      unfolding remove_block_comments_keep [OF False] by simp
  qed
qed

lemma find_str_occurrence: "find_str (b @ sub @ c) sub \<noteq> None"
proof (induction b)
  case Nil
  have sw: "startswith (sub @ c) sub" by simp
  show ?case
  proof (cases "sub @ c")
    case Nil
    then show ?thesis by simp
  next
    case (Cons x xs)
    with sw have "startswith (x # xs) sub" by simp
    with Cons show ?thesis by simp
  qed
next
  case (Cons x b)
  then show ?case by auto
qed

lemma remove_block_comments_changes:
  "remove_block_comments (a @ ''/*'' @ b @ ''*/'' @ c) \<noteq> a @ ''/*'' @ b @ ''*/'' @ c"
proof
  let ?t = "a @ ''/*'' @ b @ ''*/'' @ c"
  assume eq: "remove_block_comments ?t = ?t"
  show False using eq
  proof (induction a)
    case Nil
    from find_str_occurrence [of b "''*/''" c] obtain i where
      i: "find_str (b @ ''*/'' @ c) ''*/'' = Some i" by auto
    have "length (remove_block_comments (drop (i + 2) (b @ ''*/'' @ c))) \<le>
        length (drop (i + 2) (b @ ''*/'' @ c))"
      by (rule length_remove_block_comments)
    then have "length (remove_block_comments (drop (i + 2) (b @ ''*/'' @ c))) <
        length (''/*'' @ b @ ''*/'' @ c)"
      by simp
    moreover have "remove_block_comments (''/*'' @ b @ ''*/'' @ c) =
        remove_block_comments (drop (i + 2) (b @ ''*/'' @ c))"
      using i by simp
    ultimately show ?case using Nil by simp
  next
    case (Cons x a)
    let ?r = "a @ ''/*'' @ b @ ''*/'' @ c"
    have "length (remove_block_comments (x # ?r)) = length (x # ?r)"
      using Cons.prems by simp
    show ?case
    proof (cases "startswith (x # ?r) ''/*'' \<and> find_str (tl ?r) ''*/'' \<noteq> None")
      case True
      then obtain i where i: "find_str (tl ?r) ''*/'' = Some i" by auto
      have "length (remove_block_comments (drop (i + 2) (tl ?r))) \<le> length (drop (i + 2) (tl ?r))"
        by (rule length_remove_block_comments)
      then have "length (remove_block_comments (drop (i + 2) (tl ?r))) < length (x # ?r)"
        by simp
      moreover from True i have "remove_block_comments (x # ?r) =
          remove_block_comments (drop (i + 2) (tl ?r))"
        by simp
      ultimately show ?thesis
        using \<open>length (remove_block_comments (x # ?r)) = length (x # ?r)\<close> by simp
    next
      case False
      then have "remove_block_comments (x # ?r) = x # remove_block_comments ?r"
        by (auto split: option.splits)
      with Cons.prems have "remove_block_comments ?r = ?r" by simp
      from Cons.IH [OF this] show ?thesis .
    qed
  qed
qed

lemma remove_block_comments_shorter:
  assumes "t = a @ ''/*'' @ b @ ''*/'' @ c"
  shows "length (remove_block_comments t) < length t"
proof -
  have "remove_block_comments t \<noteq> t"
    unfolding assms by (rule remove_block_comments_changes)
  then have "length (remove_block_comments t) \<noteq> length t"
    using remove_block_comments_same_length by blast
  with length_remove_block_comments [of t] show ?thesis by linarith
qed

lemma length_collapse_whitespace: "length (collapse_whitespace x) \<le> length x"
proof (induction x rule: collapse_whitespace.induct)
  case 1
  show ?case by simp
next
  case (2 c cs)
  show ?case
  proof (cases "is_space c")
    case True
    have "length (dropWhile is_space cs) \<le> length cs" by (rule length_dropWhile_le)
    with 2(1) [OF True] True show ?thesis by simp
  next
    case False
    with 2(2) show ?thesis by simp
  qed
qed

lemma length_strip: "length (strip x) \<le> length x"
proof -
  have "length (rstrip (lstrip x)) \<le> length (lstrip x)"
    unfolding rstrip_def using length_dropWhile_le [of is_space "rev (lstrip x)"] by simp
  moreover have "length (lstrip x) \<le> length x"
    unfolding lstrip_def by (rule length_dropWhile_le)
  ultimately show ?thesis unfolding strip_def by linarith
qed

lemma length_sanitize_sql:
  "length (sanitize_sql t) \<le> length (remove_block_comments (remove_line_comments t))"
  unfolding sanitize_sql_def Let_def
  using length_strip [of "collapse_whitespace (remove_block_comments (remove_line_comments t))"]
    length_collapse_whitespace [of "remove_block_comments (remove_line_comments t)"]
  by linarith

lemma sanitize_sql_changes:
  assumes "contains ''--'' t \<or> (\<exists>a b c. t = a @ ''/*'' @ b @ ''*/'' @ c)"
  shows "sanitize_sql t \<noteq> t"
proof -
  have "length (remove_block_comments (remove_line_comments t)) < length t"
  proof (cases "contains ''--'' t")
    case True
    from remove_line_comments_shorter [OF this]
      length_remove_block_comments [of "remove_line_comments t"]
    show ?thesis by linarith
  next
    case False
    with assms obtain a b c where t: "t = a @ ''/*'' @ b @ ''*/'' @ c" by blast
    from False have "remove_line_comments t = t" by (rule remove_line_comments_id)
    with remove_block_comments_shorter [OF t] show ?thesis by simp
  qed
  with length_sanitize_sql [of t] have "length (sanitize_sql t) < length t" by linarith
  then show ?thesis by auto
qed

section \<open>Facts about pagination\<close>

lemma digit_char_in: "d < 10 \<Longrightarrow> digit_char d \<in> set ''0123456789''"
  unfolding digit_char_def by (rule nth_mem) simp

lemma set_snoc_subset: "set xs \<subseteq> D \<Longrightarrow> d \<in> D \<Longrightarrow> set (xs @ [d]) \<subseteq> D"
  by simp

lemma str_nat_digits: "set (str_nat n) \<subseteq> set ''0123456789''"
proof (induction n rule: str_nat.induct)
  case (1 n)
  show ?case
  proof (cases "n < 10")
    case True
    then have eq: "str_nat n = [] @ [digit_char n]" by (subst str_nat.simps) simp
    show ?thesis unfolding eq
      by (rule set_snoc_subset) (simp, rule digit_char_in [OF True])
  next
    case False
    then have eq: "str_nat n = str_nat (n div 10) @ [digit_char (n mod 10)]"
      by (subst str_nat.simps) simp
    have m: "n mod 10 < 10" by simp
    show ?thesis unfolding eq
      by (rule set_snoc_subset) (rule 1 [OF False], rule digit_char_in [OF m])
  qed
qed


lemma str_int_chars: "set (str_int i) \<subseteq> set ''-0123456789''"
proof -
  have D: "set ''-0123456789'' = insert CHR ''-'' (set ''0123456789'')"
    by (fact list.set(2))
  show ?thesis
  proof (cases "i < 0")
    case True
    then have "set (str_int i) = insert CHR ''-'' (set (str_nat (nat (- i))))"
      by (simp add: str_int_def)
    with str_nat_digits [of "nat (- i)"] show ?thesis
      unfolding D by (simp only: insert_mono)
  next
    case False
    then have "set (str_int i) = set (str_nat (nat i))"
      by (simp add: str_int_def)
    with str_nat_digits [of "nat i"] show ?thesis
      unfolding D by (simp only: subset_insertI2)
  qed
qed

lemma num_char_props:
  "\<forall>c\<in>set ''-0123456789''. c \<noteq> CHR ''L'' \<and> c \<noteq> CHR '';'' \<and> \<not> is_space c \<and> upper_char c = c"
  by (simp add: is_space_def upper_char_def upper_table_def)

lemma str_int_char:
  assumes "c \<in> set (str_int i)"
  shows "c \<noteq> CHR ''L'' \<and> c \<noteq> CHR '';'' \<and> \<not> is_space c \<and> upper_char c = c"
proof -
  from assms str_int_chars have "c \<in> set ''-0123456789''" by (rule subsetD [rotated])
  with num_char_props show ?thesis by (rule bspec)
qed

lemma upper_str_int: "upper (str_int i) = str_int i"
  unfolding upper_def by (rule map_idI) (simp add: str_int_char)


lemma rfind_None: "hd sub \<notin> set t \<Longrightarrow> sub \<noteq> [] \<Longrightarrow> rfind t sub = None"
proof (induction t)
  case Nil
  then show ?case by simp
next
  case (Cons c cs)
  then have "\<not> startswith (c # cs) sub" by (cases sub) auto
  with Cons show ?case by simp
qed

lemma rfind_last_occurrence:
  assumes "hd sub \<notin> set (tl sub @ t)" "sub \<noteq> []"
  shows "rfind (r @ sub @ t) sub = Some (length r)"
proof (induction r)
  case Nil
  obtain c cs where sub: "sub = c # cs" using assms(2) by (cases sub) auto
  with assms(1) have "rfind (cs @ t) sub = None"
    by (intro rfind_None) auto
  with sub show ?case by simp
next
  case (Cons a r)
  then show ?case by simp
qed

lemma find_str_None: "hd sub \<notin> set t \<Longrightarrow> sub \<noteq> [] \<Longrightarrow> find_str t sub = None"
proof (induction t)
  case Nil
  then show ?case by simp
next
  case (Cons c cs)
  then have "\<not> startswith (c # cs) sub" by (cases sub) auto
  with Cons show ?case by simp
qed

lemma rstrip_snoc_blank: "rstrip (R @ '' '') = rstrip R"
  by (simp add: rstrip_def is_space_def)

lemma add_pagination_shape:
  "\<exists>R. rstrip R = R \<and>
     (\<forall>p s. add_pagination sql p s =
        R @ '' LIMIT '' @ str_int s @ '' OFFSET '' @ str_int ((p - 1) * s))"
proof -
  define sql' where "sql' = (case rfind (upper sql) ''LIMIT'' of
                    None \<Rightarrow> sql
                  | Some limit_pos \<Rightarrow>
                      (let end_pos = (case find_from sql '';'' limit_pos of
                                        None \<Rightarrow> length sql
                                      | Some e \<Rightarrow> e)
                       in rstrip (take limit_pos sql) @ drop end_pos sql))"
  have "\<forall>p s. add_pagination sql p s =
        rstrip sql' @ '' LIMIT '' @ str_int s @ '' OFFSET '' @ str_int ((p - 1) * s)"
    by (simp add: add_pagination_def Let_def sql'_def)
  moreover have "rstrip (rstrip sql') = rstrip sql'" by simp
  ultimately show ?thesis by blast
qed

lemma add_pagination_last_limit:
  assumes "rfind (upper sql) ''LIMIT'' = Some i" "find_from sql '';'' i = None"
  shows "add_pagination sql p s =
     rstrip (rstrip (take i sql)) @ '' LIMIT '' @ str_int s @ '' OFFSET '' @ str_int ((p - 1) * s)"
  using assms by (simp add: add_pagination_def Let_def)

lemma add_pagination_appended:
  assumes "rstrip R = R"
  shows "add_pagination (R @ '' LIMIT '' @ str_int a @ '' OFFSET '' @ str_int b) p s =
     R @ '' LIMIT '' @ str_int s @ '' OFFSET '' @ str_int ((p - 1) * s)"
proof -
  let ?t = "'' '' @ str_int a @ '' OFFSET '' @ str_int b"
  let ?A = "R @ '' LIMIT '' @ str_int a @ '' OFFSET '' @ str_int b"
  have A: "?A = (R @ '' '') @ ''LIMIT'' @ ?t" by simp
  have noL: "CHR ''L'' \<notin> set (''IMIT'' @ ?t)"
    using str_int_char [of "CHR ''L''" a] str_int_char [of "CHR ''L''" b] by auto
  have nosemi: "CHR '';'' \<notin> set (''LIMIT'' @ ?t)"
    using str_int_char [of "CHR '';''" a] str_int_char [of "CHR '';''" b] by auto
  have up: "upper ?A = (upper R @ '' '') @ ''LIMIT'' @ ?t"
    using upper_str_int [of a] upper_str_int [of b]
    by (simp add: upper_def upper_char_def upper_table_def)
  have "rfind ((upper R @ '' '') @ ''LIMIT'' @ ?t) ''LIMIT'' = Some (length (upper R @ '' ''))"
    using noL by (intro rfind_last_occurrence) auto
  then have rf: "rfind (upper ?A) ''LIMIT'' = Some (Suc (length R))"
    unfolding up by (simp add: upper_def)
  have "drop (Suc (length R)) ?A = ''LIMIT'' @ ?t" by simp
  moreover have "find_str (''LIMIT'' @ ?t) '';'' = None"
    using nosemi by (intro find_str_None) auto
  ultimately have ff: "find_from ?A '';'' (Suc (length R)) = None"
    by (simp add: find_from_def)
  have tk: "take (Suc (length R)) ?A = R @ '' ''" by simp
  have "rstrip (rstrip (take (Suc (length R)) ?A)) = R"
    unfolding tk using assms by (simp only: rstrip_snoc_blank)
  with add_pagination_last_limit [OF rf ff, of p s] show ?thesis
    by (simp only:)
qed

section \<open>The safety check\<close>

text \<open>
  C8. For every text, \<^verbatim>\<open>ensure_safe_select\<close> returns a verdict (the function is total and has
  no error path: a rejection is a returned pair, never an exception) in which the reason
  is absent exactly when the verdict is safe, and a reason that is present is not the
  empty text.
\<close>

theorem ensure_safe_select_verdict:
  "fst (ensure_safe_select s) = (snd (ensure_safe_select s) = None) \<and>
   snd (ensure_safe_select s) \<noteq> Some []"
  by (simp add: ensure_safe_select_def Let_def split: option.split)

text \<open>
  The checker of \<^verbatim>\<open>trendsql_kg\<close> returns verdicts of the same shape, whatever the parser
  does, an exception of the parser included.
\<close>

lemma check_sql_safety_verdict:
  "fst (check_sql_safety parse s) = (snd (check_sql_safety parse s) = None) \<and>
   snd (check_sql_safety parse s) \<noteq> Some []"
  by (simp add: check_sql_safety_def Let_def split: sum.split)

text \<open>
  Its raw-text patterns are searched before the parser is called. They reject a denied
  keyword inside a string literal too, and every rejection by them has the same reason,
  which names no keyword and no rule.
\<close>

lemma check_sql_safety_raw_patterns:
  "check_sql_safety parse ''SELECT 'DROP TABLE' AS note'' =
     (False, Some ''Query contains dangerous SQL patterns'') \<and>
   check_sql_safety parse ''SELECT * FROM topics; DROP TABLE topics;'' =
     (False, Some ''Query contains dangerous SQL patterns'') \<and>
   check_sql_safety parse ''EXPLAIN CALL refresh()'' =
     (False, Some ''Query contains dangerous SQL patterns'')"
proof -
  have "kg_has_dangerous_patterns (kg_normalize_sql ''SELECT 'DROP TABLE' AS note'')"
    by code_simp
  moreover have "strip ''SELECT 'DROP TABLE' AS note'' \<noteq> []"
    by code_simp
  moreover have "kg_has_dangerous_patterns (kg_normalize_sql ''SELECT * FROM topics; DROP TABLE topics;'')"
    by code_simp
  moreover have "strip ''SELECT * FROM topics; DROP TABLE topics;'' \<noteq> []"
    by code_simp
  moreover have "kg_has_dangerous_patterns (kg_normalize_sql ''EXPLAIN CALL refresh()'')"
    by code_simp
  moreover have "strip ''EXPLAIN CALL refresh()'' \<noteq> []"
    by code_simp
  ultimately show ?thesis by (simp add: check_sql_safety_def)
qed

text \<open>
  C1, as the code has it. The keyword rule is a search over the stripped, upper-cased raw
  text, not over tokens: in an ASCII text, whenever one of INSERT, UPDATE, DELETE, DROP, TRUNCATE, ALTER,
  CREATE, REINDEX, VACUUM, GRANT, REVOKE, EXEC, EXECUTE stands there between word
  boundaries (inside a string literal or not), the verdict is unsafe and the reason is
  \<^verbatim>\<open>SQL contains forbidden keyword: \<close> followed by a keyword of the two lists that itself
  stands in the text between word boundaries. CALL, DO, COPY, BEGIN, COMMIT and ROLLBACK
  are in neither list.
\<close>

theorem forbidden_keyword_rejected:
  assumes "upper (strip s) = pre @ k @ post"
    and "k \<in> set dml_keywords \<union> {''EXEC'', ''EXECUTE''}"
    and "pre = [] \<or> \<not> is_word_char (last pre)"
    and "post = [] \<or> \<not> is_word_char (hd post)"
    and "is_ascii s"
  shows "\<exists>g pre' post'.
     ensure_safe_select s = (False, Some (''SQL contains forbidden keyword: '' @ g)) \<and>
     g \<in> set dml_keywords \<union> set exec_keywords \<and>
     upper (strip s) = pre' @ g @ post' \<and>
     (pre' = [] \<or> \<not> is_word_char (last pre')) \<and>
     (post' = [] \<or> \<not> is_word_char (hd post'))"
proof -
  let ?t = "upper (strip s)"
  have kex: "k \<in> set dml_keywords \<or> k \<in> set exec_keywords"
    using assms(2) by (auto simp: exec_keywords_def)
  have "\<exists>alts g. (alts = dml_keywords \<or> alts = exec_keywords) \<and>
          re_search (pat_keywords alts) False ?t = Some g \<and>
          first_dangerous dangerous_patterns ?t = Some g"
  proof (cases "re_search (pat_keywords dml_keywords) False ?t")
    case (Some g)
    then show ?thesis by (auto simp: dangerous_patterns_def)
  next
    case None
    have "k \<notin> set dml_keywords"
    proof
      assume "k \<in> set dml_keywords"
      then have "re_search (pat_keywords dml_keywords) False (pre @ k @ post) \<noteq> None"
        using assms(3,4) kw_like_dml by (intro re_search_complete) auto
      with None assms(1) show False by simp
    qed
    with kex have "k \<in> set exec_keywords" by blast
    then have "re_search (pat_keywords exec_keywords) False (pre @ k @ post) \<noteq> None"
      using assms(3,4) kw_like_exec by (intro re_search_complete) auto
    then obtain g where "re_search (pat_keywords exec_keywords) False ?t = Some g"
      using assms(1) by auto
    with None show ?thesis by (auto simp: dangerous_patterns_def)
  qed
  then obtain alts g where alts: "alts = dml_keywords \<or> alts = exec_keywords"
    and g: "re_search (pat_keywords alts) False ?t = Some g"
    and fd: "first_dangerous dangerous_patterns ?t = Some g" by blast
  from alts kw_like_dml kw_like_exec have "\<forall>k\<in>set alts. kw_like k" by blast
  from re_search_sound [OF g this] obtain pre' post' where
    "g \<in> set alts" "?t = pre' @ g @ post'" "pre' \<noteq> [] \<longrightarrow> \<not> is_word_char (last pre')"
    "post' = [] \<or> \<not> is_word_char (hd post')" by blast
  with alts ensure_safe_select_dangerous [OF fd] show ?thesis
    by (intro exI [of _ g] exI [of _ pre'] exI [of _ post']) auto
qed

theorem forbidden_keyword_rejected_witness:
  "is_ascii ''select 1 from t where drop = 2'' \<and>
   upper (strip ''select 1 from t where drop = 2'') = ''SELECT 1 FROM T WHERE '' @ ''DROP'' @ '' = 2'' \<and>
   ''DROP'' \<in> set dml_keywords \<union> {''EXEC'', ''EXECUTE''} \<and>
   \<not> is_word_char (last ''SELECT 1 FROM T WHERE '') \<and>
   \<not> is_word_char (hd '' = 2'') \<and>
   (\<exists>g pre' post'.
     ensure_safe_select ''select 1 from t where drop = 2'' =
       (False, Some (''SQL contains forbidden keyword: '' @ g)) \<and>
     g \<in> set dml_keywords \<union> set exec_keywords \<and>
     upper (strip ''select 1 from t where drop = 2'') = pre' @ g @ post' \<and>
     (pre' = [] \<or> \<not> is_word_char (last pre')) \<and>
     (post' = [] \<or> \<not> is_word_char (hd post')))"
proof -
  have h1: "upper (strip ''select 1 from t where drop = 2'') = ''SELECT 1 FROM T WHERE '' @ ''DROP'' @ '' = 2''"
    by code_simp
  have h2: "''DROP'' \<in> set dml_keywords \<union> {''EXEC'', ''EXECUTE''}"
    by (simp add: dml_keywords_def)
  have h3: "''SELECT 1 FROM T WHERE '' = [] \<or> \<not> is_word_char (last ''SELECT 1 FROM T WHERE '')"
    by (simp add: is_word_char_def)
  have h4: "'' = 2'' = [] \<or> \<not> is_word_char (hd '' = 2'')"
    by (simp add: is_word_char_def)
  have h5: "is_ascii ''select 1 from t where drop = 2''"
    by code_simp
  from forbidden_keyword_rejected [OF h1 h2 h3 h4 h5] h1 h2 h3 h4 h5 show ?thesis
    by simp
qed

text \<open>
  The claim as written fails: CALL is on the spec's deny list and stands outside any
  literal, and the verdict is safe.
\<close>

theorem denied_keyword_counterexample:
  "upper (strip ''EXPLAIN CALL refresh()'') = ''EXPLAIN '' @ ''CALL'' @ '' REFRESH()'' \<and>
   quote \<notin> set ''EXPLAIN CALL refresh()'' \<and>
   ensure_safe_select ''EXPLAIN CALL refresh()'' = (True, None)"
  by code_simp

text \<open>
  C4, as the code has it. The leading keyword is the run of word characters at the start
  of the stripped, upper-cased text (comments are not skipped). When that of an ASCII
  text is not SELECT, WITH or EXPLAIN the verdict is unsafe; the reason is
  \<^verbatim>\<open>SQL must start with SELECT, WITH, or EXPLAIN\<close> unless one of the forbidden-keyword
  patterns, which are tried first, is found in the text: then the reason names that
  keyword instead.
\<close>

theorem leading_keyword_rejected:
  assumes "takeWhile is_word_char (upper (strip s)) \<notin> {''SELECT'', ''WITH'', ''EXPLAIN''}"
    and "is_ascii s"
  shows "ensure_safe_select s =
     (False, Some (case first_dangerous dangerous_patterns (upper (strip s)) of
                     Some g \<Rightarrow> ''SQL contains forbidden keyword: '' @ g
                   | None \<Rightarrow> ''SQL must start with SELECT, WITH, or EXPLAIN''))"
proof -
  from assms(1) have "\<not> allowed_start (upper (strip s))"
    by (auto simp: allowed_start_iff)
  then show ?thesis
    by (simp add: ensure_safe_select_def Let_def split: option.split)
qed

theorem leading_keyword_rejected_witness:
  "is_ascii ''SHOW TABLES'' \<and>
   takeWhile is_word_char (upper (strip ''SHOW TABLES'')) \<notin> {''SELECT'', ''WITH'', ''EXPLAIN''} \<and>
   ensure_safe_select ''SHOW TABLES'' = (False, Some ''SQL must start with SELECT, WITH, or EXPLAIN'')"
proof -
  have h: "takeWhile is_word_char (upper (strip ''SHOW TABLES'')) \<notin> {''SELECT'', ''WITH'', ''EXPLAIN''}"
    by code_simp
  have d: "first_dangerous dangerous_patterns (upper (strip ''SHOW TABLES'')) = None"
    by code_simp
  have a: "is_ascii ''SHOW TABLES''"
    by code_simp
  from leading_keyword_rejected [OF h a] h a d show ?thesis by simp
qed

text \<open>
  The claim as written fails in its reason: the leading keyword DROP is none of the three,
  and the reason names DROP, not the leading-keyword rule.
\<close>

theorem leading_keyword_counterexample:
  "takeWhile is_word_char (upper (strip ''DROP TABLE topics'')) \<notin> {''SELECT'', ''WITH'', ''EXPLAIN''} \<and>
   ensure_safe_select ''DROP TABLE topics'' = (False, Some ''SQL contains forbidden keyword: DROP'') \<and>
   \<not> contains ''must start with'' ''SQL contains forbidden keyword: DROP''"
  by code_simp

text \<open>
  C10, as the code has it. Every text with a semicolon anywhere in it (inside a string
  literal too) is rejected. The semicolon rule is the third one: for an ASCII text the
  reason is \<^verbatim>\<open>Multiple statements not allowed (semicolon detected)\<close> when no
  forbidden-keyword pattern is found and the leading keyword is SELECT, WITH or EXPLAIN;
  otherwise it is the reason of the earlier rule.
\<close>

theorem semicolon_rejected:
  assumes "CHR '';'' \<in> set s"
  shows "\<not> fst (ensure_safe_select s) \<and>
     (is_ascii s \<longrightarrow>
        ensure_safe_select s =
          (False, Some (case first_dangerous dangerous_patterns (upper (strip s)) of
                          Some g \<Rightarrow> ''SQL contains forbidden keyword: '' @ g
                        | None \<Rightarrow>
                            if takeWhile is_word_char (upper (strip s)) \<in> {''SELECT'', ''WITH'', ''EXPLAIN''}
                            then ''Multiple statements not allowed (semicolon detected)''
                            else ''SQL must start with SELECT, WITH, or EXPLAIN'')))"
  using assms
  by (simp add: ensure_safe_select_def Let_def allowed_start_iff split: option.split)

theorem semicolon_rejected_witness:
  "CHR '';'' \<in> set ''SELECT ';' AS c'' \<and> is_ascii ''SELECT ';' AS c'' \<and>
   ensure_safe_select ''SELECT ';' AS c'' =
     (False, Some ''Multiple statements not allowed (semicolon detected)'')"
proof -
  have h: "CHR '';'' \<in> set ''SELECT ';' AS c''" by simp
  have a: "is_ascii ''SELECT ';' AS c''" by code_simp
  have d: "first_dangerous dangerous_patterns (upper (strip ''SELECT ';' AS c'')) = None"
    by code_simp
  have l: "takeWhile is_word_char (upper (strip ''SELECT ';' AS c'')) = ''SELECT''"
    by code_simp
  from semicolon_rejected [OF h] a
  have "ensure_safe_select ''SELECT ';' AS c'' =
     (False, Some (case first_dangerous dangerous_patterns (upper (strip ''SELECT ';' AS c'')) of
                     Some g \<Rightarrow> ''SQL contains forbidden keyword: '' @ g
                   | None \<Rightarrow>
                       if takeWhile is_word_char (upper (strip ''SELECT ';' AS c'')) \<in>
                            {''SELECT'', ''WITH'', ''EXPLAIN''}
                       then ''Multiple statements not allowed (semicolon detected)''
                       else ''SQL must start with SELECT, WITH, or EXPLAIN''))"
    by blast
  with h a show ?thesis unfolding d l by simp
qed

text \<open>
  The claim as written fails in its reason: the text has a semicolon, and the reason is
  that of the keyword rule.
\<close>

theorem semicolon_reason_counterexample:
  "CHR '';'' \<in> set ''SELECT 1; DELETE FROM t'' \<and>
   ensure_safe_select ''SELECT 1; DELETE FROM t'' =
     (False, Some ''SQL contains forbidden keyword: DELETE'') \<and>
   \<not> contains ''Multiple statements'' ''SQL contains forbidden keyword: DELETE''"
  by code_simp



text \<open>
  C5, as the code has it. On an ASCII text the rules fire in the order of the code, the
  first failing rule winning whatever the later rules would say: a forbidden-keyword
  pattern that is found decides; else a leading keyword other than SELECT, WITH and
  EXPLAIN; else a semicolon; else a comment marker; else the text is accepted. For
  \<^verbatim>\<open>SELECT * FROM topics; DROP TABLE topics;\<close>, which has a forbidden keyword and a
  semicolon, the reason is \<^verbatim>\<open>SQL contains forbidden keyword: DROP\<close>.
\<close>

theorem rule_order:
  assumes "is_ascii s"
  shows
    "(first_dangerous dangerous_patterns (upper (strip s)) = Some g \<longrightarrow>
        ensure_safe_select s = (False, Some (''SQL contains forbidden keyword: '' @ g))) \<and>
     (first_dangerous dangerous_patterns (upper (strip s)) = None \<and>
      takeWhile is_word_char (upper (strip s)) \<notin> {''SELECT'', ''WITH'', ''EXPLAIN''} \<longrightarrow>
        ensure_safe_select s = (False, Some ''SQL must start with SELECT, WITH, or EXPLAIN'')) \<and>
     (first_dangerous dangerous_patterns (upper (strip s)) = None \<and>
      takeWhile is_word_char (upper (strip s)) \<in> {''SELECT'', ''WITH'', ''EXPLAIN''} \<and>
      CHR '';'' \<in> set s \<longrightarrow>
        ensure_safe_select s =
          (False, Some ''Multiple statements not allowed (semicolon detected)'')) \<and>
     (first_dangerous dangerous_patterns (upper (strip s)) = None \<and>
      takeWhile is_word_char (upper (strip s)) \<in> {''SELECT'', ''WITH'', ''EXPLAIN''} \<and>
      CHR '';'' \<notin> set s \<and> (contains ''--'' s \<or> contains ''/*'' s) \<longrightarrow>
        ensure_safe_select s = (False, Some ''Comments not allowed in SQL'')) \<and>
     (first_dangerous dangerous_patterns (upper (strip s)) = None \<and>
      takeWhile is_word_char (upper (strip s)) \<in> {''SELECT'', ''WITH'', ''EXPLAIN''} \<and>
      CHR '';'' \<notin> set s \<and> \<not> contains ''--'' s \<and> \<not> contains ''/*'' s \<longrightarrow>
        ensure_safe_select s = (True, None))"
  by (simp add: ensure_safe_select_def Let_def allowed_start_iff)

theorem rule_order_witness:
  "is_ascii ''SELECT * FROM topics; DROP TABLE topics;'' \<and>
   first_dangerous dangerous_patterns (upper (strip ''SELECT * FROM topics; DROP TABLE topics;'')) = Some ''DROP'' \<and>
   ensure_safe_select ''SELECT * FROM topics; DROP TABLE topics;'' =
     (False, Some ''SQL contains forbidden keyword: DROP'') \<and>
   is_ascii ''SHOW TABLES; -- all'' \<and>
   ensure_safe_select ''SHOW TABLES; -- all'' =
     (False, Some ''SQL must start with SELECT, WITH, or EXPLAIN'') \<and>
   is_ascii ''SELECT 1; -- one'' \<and>
   ensure_safe_select ''SELECT 1; -- one'' =
     (False, Some ''Multiple statements not allowed (semicolon detected)'') \<and>
   is_ascii ''SELECT 1 -- one'' \<and>
   ensure_safe_select ''SELECT 1 -- one'' = (False, Some ''Comments not allowed in SQL'') \<and>
   is_ascii ''SELECT 1'' \<and>
   ensure_safe_select ''SELECT 1'' = (True, None)"
proof -
  have a1: "is_ascii ''SELECT * FROM topics; DROP TABLE topics;''" by code_simp
  have d1: "first_dangerous dangerous_patterns
      (upper (strip ''SELECT * FROM topics; DROP TABLE topics;'')) = Some ''DROP''"
    by code_simp
  have a2: "is_ascii ''SHOW TABLES; -- all''" by code_simp
  have d2: "first_dangerous dangerous_patterns (upper (strip ''SHOW TABLES; -- all'')) = None \<and>
      takeWhile is_word_char (upper (strip ''SHOW TABLES; -- all'')) \<notin> {''SELECT'', ''WITH'', ''EXPLAIN''}"
    by code_simp
  have a3: "is_ascii ''SELECT 1; -- one''" by code_simp
  have d3: "first_dangerous dangerous_patterns (upper (strip ''SELECT 1; -- one'')) = None \<and>
      takeWhile is_word_char (upper (strip ''SELECT 1; -- one'')) \<in> {''SELECT'', ''WITH'', ''EXPLAIN''} \<and>
      CHR '';'' \<in> set ''SELECT 1; -- one''"
    by code_simp
  have a4: "is_ascii ''SELECT 1 -- one''" by code_simp
  have d4: "first_dangerous dangerous_patterns (upper (strip ''SELECT 1 -- one'')) = None \<and>
      takeWhile is_word_char (upper (strip ''SELECT 1 -- one'')) \<in> {''SELECT'', ''WITH'', ''EXPLAIN''} \<and>
      CHR '';'' \<notin> set ''SELECT 1 -- one'' \<and>
      (contains ''--'' ''SELECT 1 -- one'' \<or> contains ''/*'' ''SELECT 1 -- one'')"
    by code_simp
  have a5: "is_ascii ''SELECT 1''" by code_simp
  have d5: "first_dangerous dangerous_patterns (upper (strip ''SELECT 1'')) = None \<and>
      takeWhile is_word_char (upper (strip ''SELECT 1'')) \<in> {''SELECT'', ''WITH'', ''EXPLAIN''} \<and>
      CHR '';'' \<notin> set ''SELECT 1'' \<and> \<not> contains ''--'' ''SELECT 1'' \<and> \<not> contains ''/*'' ''SELECT 1''"
    by code_simp
  from rule_order [OF a1, of "''DROP''"] d1
  have c1: "ensure_safe_select ''SELECT * FROM topics; DROP TABLE topics;'' =
     (False, Some ''SQL contains forbidden keyword: DROP'')" by simp
  from rule_order [OF a2] d2
  have c2: "ensure_safe_select ''SHOW TABLES; -- all'' =
     (False, Some ''SQL must start with SELECT, WITH, or EXPLAIN'')" by blast
  from rule_order [OF a3] d3
  have c3: "ensure_safe_select ''SELECT 1; -- one'' =
     (False, Some ''Multiple statements not allowed (semicolon detected)'')" by blast
  from rule_order [OF a4] d4
  have c4: "ensure_safe_select ''SELECT 1 -- one'' = (False, Some ''Comments not allowed in SQL'')"
    by blast
  from rule_order [OF a5] d5
  have c5: "ensure_safe_select ''SELECT 1'' = (True, None)" by blast
  from a1 d1 c1 a2 c2 a3 c3 a4 c4 a5 c5 show ?thesis by blast
qed

text \<open>
  The claim as written fails: the reason for its input names DROP and does not mention
  multiple statements.
\<close>

theorem rule_order_counterexample:
  "ensure_safe_select ''SELECT * FROM topics; DROP TABLE topics;'' =
     (False, Some ''SQL contains forbidden keyword: DROP'') \<and>
   \<not> contains ''ultiple'' ''SQL contains forbidden keyword: DROP''"
  by code_simp

section \<open>The sanitizer\<close>

text \<open>
  C3, as the code has it. \<^verbatim>\<open>sanitize_sql\<close> does not know about string literals: whatever
  stands in front of it, an open quote included, a \<^verbatim>\<open>--\<close> that no dash precedes is a
  comment opener and the text from it to the end of the line is removed with it, and
  the two comment substitutions remove a block from \<^verbatim>\<open>/*\<close> to the next \<^verbatim>\<open>*/\<close> and keep
  what stands in front of it. For the input
  \<^verbatim>\<open>SELECT * FROM t WHERE name = '--not a comment'\<close> the result is
  \<^verbatim>\<open>SELECT * FROM t WHERE name = '\<close>, and the safety check accepts that result; the
  literal of \<^verbatim>\<open>SELECT 'a /* b */ c' AS n\<close> becomes \<^verbatim>\<open>'a c'\<close>.
\<close>

theorem sanitize_sql_not_quote_aware:
  "(newline \<notin> set b \<and> (rest = [] \<or> hd rest = newline) \<and> (a = [] \<or> last a \<noteq> CHR ''-'') \<longrightarrow>
      sanitize_sql (a @ ''--'' @ b @ rest) = sanitize_sql (a @ rest)) \<and>
   (\<not> contains ''--'' (a @ ''/*'' @ b @ ''*/'' @ rest) \<and> \<not> contains ''/*'' a \<and>
    \<not> contains ''*/'' (b @ ''*'') \<longrightarrow>
      remove_block_comments (remove_line_comments (a @ ''/*'' @ b @ ''*/'' @ rest)) =
        a @ remove_block_comments rest) \<and>
   sanitize_sql (''SELECT * FROM t WHERE name = '--not a comment'' @ [quote]) =
     ''SELECT * FROM t WHERE name = '' @ [quote] \<and>
   ensure_safe_select (sanitize_sql (''SELECT * FROM t WHERE name = '--not a comment'' @ [quote])) =
     (True, None) \<and>
   sanitize_sql ''SELECT 'a /* b */ c' AS n'' = ''SELECT 'a c' AS n''"
proof (intro conjI impI)
  assume "newline \<notin> set b \<and> (rest = [] \<or> hd rest = newline) \<and> (a = [] \<or> last a \<noteq> CHR ''-'')"
  then have "remove_line_comments (a @ ''--'' @ b @ rest) = remove_line_comments (a @ rest)"
    by (intro line_comment_removed) simp_all
  then show "sanitize_sql (a @ ''--'' @ b @ rest) = sanitize_sql (a @ rest)"
    by (simp only: sanitize_sql_def)
next
  assume h: "\<not> contains ''--'' (a @ ''/*'' @ b @ ''*/'' @ rest) \<and> \<not> contains ''/*'' a \<and>
    \<not> contains ''*/'' (b @ ''*'')"
  then have "remove_line_comments (a @ ''/*'' @ b @ ''*/'' @ rest) = a @ ''/*'' @ b @ ''*/'' @ rest"
    by (intro remove_line_comments_id) simp
  moreover from h have "remove_block_comments (a @ ''/*'' @ b @ ''*/'' @ rest) = a @ remove_block_comments rest"
    by (intro block_comment_removed) simp_all
  ultimately show "remove_block_comments (remove_line_comments (a @ ''/*'' @ b @ ''*/'' @ rest)) =
        a @ remove_block_comments rest"
    by (simp only:)
next
  show "sanitize_sql (''SELECT * FROM t WHERE name = '--not a comment'' @ [quote]) =
     ''SELECT * FROM t WHERE name = '' @ [quote]"
    by code_simp
next
  show "ensure_safe_select (sanitize_sql (''SELECT * FROM t WHERE name = '--not a comment'' @ [quote])) =
     (True, None)"
    by code_simp
next
  show "sanitize_sql ''SELECT 'a /* b */ c' AS n'' = ''SELECT 'a c' AS n''"
    by code_simp
qed

theorem sanitize_sql_not_quote_aware_witness:
  "newline \<notin> set (''not a comment'' @ [quote]) \<and>
   last (''SELECT * FROM t WHERE name = '' @ [quote]) \<noteq> CHR ''-'' \<and>
   sanitize_sql ((''SELECT * FROM t WHERE name = '' @ [quote]) @ ''--'' @ (''not a comment'' @ [quote]) @ []) =
     sanitize_sql ((''SELECT * FROM t WHERE name = '' @ [quote]) @ []) \<and>
   \<not> contains ''--'' (''SELECT 'a '' @ ''/*'' @ '' b '' @ ''*/'' @ '' c' AS n'') \<and>
   \<not> contains ''/*'' ''SELECT 'a '' \<and>
   \<not> contains ''*/'' ('' b '' @ ''*'') \<and>
   remove_block_comments (remove_line_comments (''SELECT 'a '' @ ''/*'' @ '' b '' @ ''*/'' @ '' c' AS n'')) =
     ''SELECT 'a '' @ remove_block_comments '' c' AS n''"
proof -
  have h1: "newline \<notin> set (''not a comment'' @ [quote]) \<and> ([] = [] \<or> hd [] = newline) \<and>
      ((''SELECT * FROM t WHERE name = '' @ [quote]) = [] \<or>
       last (''SELECT * FROM t WHERE name = '' @ [quote]) \<noteq> CHR ''-'')"
    by (simp add: newline_def quote_def)
  have h2: "\<not> contains ''--'' (''SELECT 'a '' @ ''/*'' @ '' b '' @ ''*/'' @ '' c' AS n'') \<and>
      \<not> contains ''/*'' ''SELECT 'a '' \<and> \<not> contains ''*/'' ('' b '' @ ''*'')"
    by code_simp
  from sanitize_sql_not_quote_aware
         [of "''not a comment'' @ [quote]" "[]" "''SELECT * FROM t WHERE name = '' @ [quote]"] h1
  have c1: "sanitize_sql ((''SELECT * FROM t WHERE name = '' @ [quote]) @ ''--'' @ (''not a comment'' @ [quote]) @ []) =
     sanitize_sql ((''SELECT * FROM t WHERE name = '' @ [quote]) @ [])"
    by blast
  from sanitize_sql_not_quote_aware [of "'' b ''" "'' c' AS n''" "''SELECT 'a ''"] h2
  have c2: "remove_block_comments (remove_line_comments (''SELECT 'a '' @ ''/*'' @ '' b '' @ ''*/'' @ '' c' AS n'')) =
     ''SELECT 'a '' @ remove_block_comments '' c' AS n''"
    by blast
  from h1 h2 c1 c2 show ?thesis by blast
qed

text \<open>
  The claim as written fails: the literal of its input does not survive.
\<close>

theorem sanitize_sql_literal_counterexample:
  "sanitize_sql (''SELECT * FROM t WHERE name = '--not a comment'' @ [quote]) \<noteq>
     ''SELECT * FROM t WHERE name = '--not a comment'' @ [quote] \<and>
   \<not> contains ''not a comment'' (sanitize_sql (''SELECT * FROM t WHERE name = '--not a comment'' @ [quote]))"
  by code_simp

text \<open>
  C9, as the code has it. \<^verbatim>\<open>sanitize_sql\<close> of \<^verbatim>\<open>trendsql\<close> makes one pass for each kind
  of comment, and deleting a block comment can join two characters into a new comment
  marker. Sanitizing twice is sanitizing once exactly on the texts whose sanitized form
  holds no \<^verbatim>\<open>--\<close> and no block from \<^verbatim>\<open>/*\<close> to a later \<^verbatim>\<open>*/\<close>. \<^verbatim>\<open>sanitize_sql\<close> of
  \<^verbatim>\<open>trendsql_kg\<close> is not idempotent on such texts either: it strips before it replaces line
  continuations, so it turns a backslash, a newline and \<^verbatim>\<open>SELECT 1\<close> into \<^verbatim>\<open> SELECT 1\<close>
  with a leading blank, and that into \<^verbatim>\<open>SELECT 1\<close>.
\<close>

theorem sanitize_sql_idempotent_iff:
  "((sanitize_sql (sanitize_sql s) = sanitize_sql s) =
      (\<not> contains ''--'' (sanitize_sql s) \<and>
       (\<forall>a b c. sanitize_sql s \<noteq> a @ ''/*'' @ b @ ''*/'' @ c))) \<and>
   kg_sanitize_sql (backslash # newline # ''SELECT 1'') = '' SELECT 1'' \<and>
   kg_sanitize_sql '' SELECT 1'' = ''SELECT 1''"
proof (intro conjI iffI)
  assume "sanitize_sql (sanitize_sql s) = sanitize_sql s"
  with sanitize_sql_changes [of "sanitize_sql s"]
  show "\<not> contains ''--'' (sanitize_sql s)" by blast
next
  assume "sanitize_sql (sanitize_sql s) = sanitize_sql s"
  with sanitize_sql_changes [of "sanitize_sql s"]
  show "\<forall>a b c. sanitize_sql s \<noteq> a @ ''/*'' @ b @ ''*/'' @ c" by blast
next
  assume h: "\<not> contains ''--'' (sanitize_sql s) \<and>
    (\<forall>a b c. sanitize_sql s \<noteq> a @ ''/*'' @ b @ ''*/'' @ c)"
  let ?t = "sanitize_sql s"
  from h have "remove_line_comments ?t = ?t" by (intro remove_line_comments_id) simp
  moreover from h have "remove_block_comments ?t = ?t"
    by (intro remove_block_comments_no_block) simp
  ultimately have "sanitize_sql ?t = strip (collapse_whitespace ?t)"
    by (simp add: sanitize_sql_def)
  also have "\<dots> = ?t"
    unfolding sanitize_sql_def Let_def by (rule normalise_fixed)
  finally show "sanitize_sql ?t = ?t" .
next
  show "kg_sanitize_sql (backslash # newline # ''SELECT 1'') = '' SELECT 1''"
    by code_simp
next
  show "kg_sanitize_sql '' SELECT 1'' = ''SELECT 1''"
    by code_simp
qed

theorem sanitize_sql_idempotent_iff_witness:
  "\<not> contains ''--'' (sanitize_sql ''SELECT  * FROM topics -- ; DROP TABLE topics'') \<and>
   (\<forall>a b c. sanitize_sql ''SELECT  * FROM topics -- ; DROP TABLE topics'' \<noteq> a @ ''/*'' @ b @ ''*/'' @ c) \<and>
   sanitize_sql (sanitize_sql ''SELECT  * FROM topics -- ; DROP TABLE topics'') =
     sanitize_sql ''SELECT  * FROM topics -- ; DROP TABLE topics'' \<and>
   sanitize_sql ''SELECT  * FROM topics -- ; DROP TABLE topics'' = ''SELECT * FROM topics''"
proof -
  have v: "sanitize_sql ''SELECT  * FROM topics -- ; DROP TABLE topics'' = ''SELECT * FROM topics''"
    by code_simp
  have h1: "\<not> contains ''--'' (sanitize_sql ''SELECT  * FROM topics -- ; DROP TABLE topics'')"
    by code_simp
  have "\<not> contains ''/*'' ''SELECT * FROM topics''" by code_simp
  from no_block_without_opener [OF this] v
  have h2: "\<forall>a b c. sanitize_sql ''SELECT  * FROM topics -- ; DROP TABLE topics'' \<noteq> a @ ''/*'' @ b @ ''*/'' @ c"
    by simp
  from sanitize_sql_idempotent_iff [of "''SELECT  * FROM topics -- ; DROP TABLE topics''"] h1 h2
  have "sanitize_sql (sanitize_sql ''SELECT  * FROM topics -- ; DROP TABLE topics'') =
     sanitize_sql ''SELECT  * FROM topics -- ; DROP TABLE topics''"
    by blast
  with h1 h2 v show ?thesis by blast
qed

text \<open>
  The claim as written fails: \<^verbatim>\<open>-/**/-\<close> is sanitized to \<^verbatim>\<open>--\<close>, and that to the empty
  text.
\<close>

theorem sanitize_sql_idempotent_counterexample:
  "sanitize_sql ''-/**/-'' = ''--'' \<and> sanitize_sql ''--'' = [] \<and>
   sanitize_sql (sanitize_sql ''-/**/-'') \<noteq> sanitize_sql ''-/**/-''"
  by code_simp

section \<open>Pagination\<close>

text \<open>
  C6 at a query whose only LIMIT is in a parenthesized subquery. \<^verbatim>\<open>add_pagination\<close> of
  \<^verbatim>\<open>trendsql\<close> cuts from the last LIMIT of the text, wherever it stands, to the end (or to
  the next semicolon): the subquery's LIMIT is replaced and the closing parenthesis and
  alias are lost. The helper of \<^verbatim>\<open>trendsql_kg\<close>, whose patterns are anchored at the end of
  the text, leaves the subquery alone and appends the clause.
\<close>

theorem add_pagination_subquery_limit:
  "add_pagination ''SELECT * FROM (SELECT id FROM t LIMIT 5) AS x'' 1 10 =
     ''SELECT * FROM (SELECT id FROM t LIMIT 10 OFFSET 0'' \<and>
   kg_add_pagination ''SELECT * FROM (SELECT id FROM t LIMIT 5) AS x'' 1 10 =
     ''SELECT * FROM (SELECT id FROM t LIMIT 5) AS x LIMIT 10 OFFSET 0''"
  by code_simp

text \<open>
  Paginating a paginated query replaces the clause that the first call appended: the
  second call finds that clause as the last LIMIT of the text, for every ASCII query
  and every page and page size.
\<close>

lemma add_pagination_replaces:
  assumes "is_ascii sql"
  shows "add_pagination (add_pagination sql p1 s1) p2 s2 = add_pagination sql p2 s2"
proof -
  from add_pagination_shape [of sql] obtain R where R: "rstrip R = R"
    and sh: "\<And>p s. add_pagination sql p s =
        R @ '' LIMIT '' @ str_int s @ '' OFFSET '' @ str_int ((p - 1) * s)"
    by blast
  show ?thesis
    unfolding sh by (rule add_pagination_appended [OF R])
qed

lemma add_pagination_examples:
  "add_pagination ''SELECT * FROM t'' 3 25 = ''SELECT * FROM t LIMIT 25 OFFSET 50'' \<and>
   add_pagination (add_pagination ''SELECT * FROM t'' 1 10) 2 20 =
     ''SELECT * FROM t LIMIT 20 OFFSET 20''"
  by code_simp

section \<open>Pagination parameters\<close>

text \<open>
  C7, as the code has it. For all integers \<open>page\<close> and \<open>page_size\<close> both functions return
  a pair (neither has an error path) with \<open>page \<ge> 1\<close> and \<open>page_size\<close> in \<open>[1, 1000]\<close>, and
  leave a page of at least 1 and a page size within \<open>[1, 1000]\<close> unchanged. A page below 1
  becomes 1 and a page size above 1000 becomes 1000. A page size below 1 becomes 1 in
  \<^verbatim>\<open>trendsql\<close>, which clamps, and the default 50 in the method of \<^verbatim>\<open>PaginationHelper\<close> (at
  its default maximum of 1000), which does not.
\<close>

theorem validate_pagination_params_normalises:
  "validate_pagination_params page page_size =
     (if page < 1 then 1 else page,
      if page_size < 1 then 1 else if 1000 < page_size then 1000 else page_size) \<and>
   kg_validate_pagination_params page page_size 1000 =
     (if page < 1 then 1 else page,
      if page_size < 1 then 50 else if 1000 < page_size then 1000 else page_size) \<and>
   1 \<le> fst (validate_pagination_params page page_size) \<and>
   1 \<le> snd (validate_pagination_params page page_size) \<and>
   snd (validate_pagination_params page page_size) \<le> 1000 \<and>
   1 \<le> fst (kg_validate_pagination_params page page_size 1000) \<and>
   1 \<le> snd (kg_validate_pagination_params page page_size 1000) \<and>
   snd (kg_validate_pagination_params page page_size 1000) \<le> 1000"
  by (simp add: validate_pagination_params_def kg_validate_pagination_params_def Let_def)

text \<open>
  The claim as written fails of the method of \<^verbatim>\<open>PaginationHelper\<close>: a page size of 0 is not
  clamped to the bound 1.
\<close>

theorem page_size_clamp_counterexample:
  "kg_validate_pagination_params 1 0 1000 = (1, 50) \<and>
   validate_pagination_params 1 0 = (1, 1) \<and> (0::int) < 1"
  by (simp add: validate_pagination_params_def kg_validate_pagination_params_def Let_def)

end
